theory Spec2Isabelle
  imports Complex_Main
begin

section \<open>Numbers, arrays and exceptions\<close>

text \<open>
  The program is \<^verbatim>\<open>mobius_strip.py\<close>: a class \<^verbatim>\<open>MobiusStrip\<close> whose constructor
  builds a parameter grid with numpy, evaluates the parametric mapping on it and
  derives a surface area and an edge length.

  Numbers. Python floats and numpy \<^verbatim>\<open>float64\<close> values are modelled by real numbers:
  every arithmetic operation is the exact one, so rounding, overflow to infinity and
  NaN are outside the model. The resolution \<^verbatim>\<open>n\<close> is a Python integer, an \<open>int\<close>.

  Arrays. A numpy array is a nested list of reals: \<open>Sc a\<close> is a scalar (a Python
  float or a 0-dimensional array), \<open>Arr xs\<close> an array whose first axis has the entries
  \<open>xs\<close>. Arrays built by the program are rectangular. An array with an axis of
  length 0 is \<open>Arr []\<close> whatever its other axes are.

  Exceptions. An expression either raises or yields an array (\<open>res\<close>); a statement
  sequence either raises or yields its value (\<open>error + 'a\<close>).

  The rendering (\<^verbatim>\<open>plot\<close>) and the printing of \<^verbatim>\<open>main\<close> are not modelled.
\<close>

datatype error = ValueError | IndexError

datatype ndarray = Sc real | Arr "ndarray list"

datatype res = Raise error | Ok ndarray

definition scalar :: "real \<Rightarrow> res" where
  "scalar a = Ok (Sc a)"

text \<open>Number of axes (\<^verbatim>\<open>ndim\<close>) and shape.\<close>

fun rank :: "ndarray \<Rightarrow> nat" where
  "rank (Sc a) = 0"
| "rank (Arr []) = 1"
| "rank (Arr (x # xs)) = Suc (rank x)"

fun shape :: "ndarray \<Rightarrow> nat list" where
  "shape (Sc a) = []"
| "shape (Arr []) = [0]"
| "shape (Arr (x # xs)) = Suc (length xs) # shape x"

text \<open>Collecting the results for the entries of an axis: the first exception wins.\<close>

fun collect :: "res list \<Rightarrow> res" where
  "collect [] = Ok (Arr [])"
| "collect (Raise e # rs) = Raise e"
| "collect (Ok a # rs) = (case collect rs of Ok (Arr as) \<Rightarrow> Ok (Arr (a # as)) | r \<Rightarrow> r)"

text \<open>Elementwise application of a unary function (a numpy ufunc of one argument).\<close>

fun nd_map :: "(real \<Rightarrow> real) \<Rightarrow> ndarray \<Rightarrow> ndarray" where
  "nd_map f (Sc a) = Sc (f a)"
| "nd_map f (Arr xs) = Arr (map (nd_map f) xs)"

text \<open>
  Elementwise application of a binary function with numpy's broadcasting: the operand
  with fewer axes is repeated along the leading axes of the other one; on a common
  axis the lengths agree or one of them is 1 and is stretched; anything else raises
  \<^verbatim>\<open>ValueError\<close> (operands could not be broadcast together).
\<close>

lemma size_elem: "x \<in> set xs \<Longrightarrow> size x \<le> size_list size xs"
  by (induction xs) auto

lemma size_hd1: "length xs = Suc 0 \<Longrightarrow> size (hd xs) \<le> size_list size xs"
  by (cases xs) auto

function broadcast :: "(real \<Rightarrow> real \<Rightarrow> real) \<Rightarrow> ndarray \<Rightarrow> ndarray \<Rightarrow> res" where
  "broadcast f (Sc a) (Sc b) = Ok (Sc (f a b))"
| "broadcast f (Sc a) (Arr ys) = collect (map (broadcast f (Sc a)) ys)"
| "broadcast f (Arr xs) (Sc b) = collect (map (\<lambda>x. broadcast f x (Sc b)) xs)"
| "broadcast f (Arr xs) (Arr ys) =
     (if rank (Arr xs) < rank (Arr ys) then collect (map (broadcast f (Arr xs)) ys)
      else if rank (Arr ys) < rank (Arr xs) then collect (map (\<lambda>x. broadcast f x (Arr ys)) xs)
      else if length xs = length ys then collect (map (\<lambda>(x, y). broadcast f x y) (zip xs ys))
      else if length xs = 1 then collect (map (broadcast f (hd xs)) ys)
      else if length ys = 1 then collect (map (\<lambda>x. broadcast f x (hd ys)) xs)
      else Raise ValueError)"
  by pat_completeness auto

termination
proof (relation "measure (\<lambda>(f, a, b). size a + size b)", goal_cases)
  case 1
  show ?case by simp
next
  case (2 f a ys y)
  then show ?case using size_elem [of y ys] by simp
next
  case (3 f xs b x)
  then show ?case using size_elem [of x xs] by simp
next
  case (4 f xs ys y)
  then show ?case using size_elem [of y ys] by simp
next
  case (5 f xs ys x)
  then show ?case using size_elem [of x xs] by simp
next
  case (6 f xs ys p x y)
  then have "x \<in> set xs" "y \<in> set ys"
    by (auto dest: set_zip_leftD set_zip_rightD)
  then show ?case using size_elem [of x xs] size_elem [of y ys] by simp
next
  case (7 f xs ys y)
  then show ?case using size_elem [of y ys] size_hd1 [of xs] by simp
next
  case (8 f xs ys x)
  then show ?case using size_elem [of x xs] size_hd1 [of ys] by simp
qed

text \<open>Operators on expressions: an operand that raised propagates, the left one first.\<close>

definition lift1 :: "(real \<Rightarrow> real) \<Rightarrow> res \<Rightarrow> res" where
  "lift1 f r = (case r of Raise e \<Rightarrow> Raise e | Ok a \<Rightarrow> Ok (nd_map f a))"

fun lift2 :: "(real \<Rightarrow> real \<Rightarrow> real) \<Rightarrow> res \<Rightarrow> res \<Rightarrow> res" where
  "lift2 f (Raise e) r = Raise e"
| "lift2 f (Ok a) (Raise e) = Raise e"
| "lift2 f (Ok a) (Ok b) = broadcast f a b"

instantiation res :: "{plus, minus, times, uminus, inverse}"
begin

definition plus_res :: "res \<Rightarrow> res \<Rightarrow> res" where
  "plus_res a b = lift2 (+) a b"

definition minus_res :: "res \<Rightarrow> res \<Rightarrow> res" where
  "minus_res a b = lift2 (-) a b"

definition times_res :: "res \<Rightarrow> res \<Rightarrow> res" where
  "times_res a b = lift2 (*) a b"

definition uminus_res :: "res \<Rightarrow> res" where
  "uminus_res a = lift1 uminus a"

definition divide_res :: "res \<Rightarrow> res \<Rightarrow> res" where
  "divide_res a b = lift2 (/) a b"

definition inverse_res :: "res \<Rightarrow> res" where
  "inverse_res a = lift1 inverse a"

instance ..

end

section \<open>The numpy functions the program calls\<close>

definition np_cos :: "res \<Rightarrow> res" where
  "np_cos r = lift1 cos r"

definition np_sin :: "res \<Rightarrow> res" where
  "np_sin r = lift1 sin r"

text \<open>
  \<^verbatim>\<open>np.sqrt\<close>. The program takes square roots of sums of squares only; numpy's NaN for
  a negative argument is outside the model.
\<close>

definition np_sqrt :: "res \<Rightarrow> res" where
  "np_sqrt r = lift1 sqrt r"

text \<open>The expression \<^verbatim>\<open>a**2\<close>.\<close>

definition pow2 :: "res \<Rightarrow> res" where
  "pow2 r = lift1 (\<lambda>a. a ^ 2) r"

text \<open>\<^verbatim>\<open>np.sum(a)\<close>: the sum of all entries, a scalar.\<close>

fun nd_sum :: "ndarray \<Rightarrow> real" where
  "nd_sum (Sc a) = a"
| "nd_sum (Arr xs) = sum_list (map nd_sum xs)"

definition np_sum :: "res \<Rightarrow> res" where
  "np_sum r = (case r of Raise e \<Rightarrow> Raise e | Ok a \<Rightarrow> Ok (Sc (nd_sum a)))"

text \<open>
  \<^verbatim>\<open>np.sum(a, axis=0)\<close>: the entries of the first axis added up elementwise. A scalar
  has no axis 0 (numpy's \<^verbatim>\<open>AxisError\<close>, a subclass of \<^verbatim>\<open>ValueError\<close>).
\<close>

definition np_sum_axis0 :: "res \<Rightarrow> res" where
  "np_sum_axis0 r =
     (case r of
        Raise e \<Rightarrow> Raise e
      | Ok (Sc a) \<Rightarrow> Raise ValueError
      | Ok (Arr []) \<Rightarrow> Ok (Sc 0)
      | Ok (Arr (x # xs)) \<Rightarrow> foldl (\<lambda>acc y. acc + Ok y) (Ok x) xs)"

text \<open>
  \<^verbatim>\<open>np.array([e1, ..., ek])\<close> of arrays: a new first axis; entries of different shapes
  raise \<^verbatim>\<open>ValueError\<close> (inhomogeneous shape).
\<close>

definition np_array :: "res list \<Rightarrow> res" where
  "np_array rs =
     (case collect rs of
        Raise e \<Rightarrow> Raise e
      | Ok (Sc a) \<Rightarrow> Ok (Sc a)
      | Ok (Arr as) \<Rightarrow>
          (if list_all (\<lambda>a. shape a = shape (hd as)) as then Ok (Arr as)
           else Raise ValueError))"

text \<open>
  \<^verbatim>\<open>a[i]\<close> for an integer \<^verbatim>\<open>i\<close>: negative indices count from the end, an index out of
  range raises \<^verbatim>\<open>IndexError\<close>, and so does indexing a scalar.
\<close>

fun np_getitem :: "ndarray \<Rightarrow> int \<Rightarrow> res" where
  "np_getitem (Sc a) i = Raise IndexError"
| "np_getitem (Arr xs) i =
     (let len = int (length xs)
      in if 0 \<le> i \<and> i < len then Ok (xs ! nat i)
         else if - len \<le> i \<and> i < 0 then Ok (xs ! nat (len + i))
         else Raise IndexError)"

text \<open>
  \<^verbatim>\<open>np.diff(a)\<close>: \<^verbatim>\<open>a[1:] - a[:-1]\<close> along the last axis; a scalar raises \<^verbatim>\<open>ValueError\<close>
  (diff requires input that is at least one dimensional).
\<close>

function np_diff :: "ndarray \<Rightarrow> res" where
  "np_diff (Sc a) = Raise ValueError"
| "np_diff (Arr xs) =
     (if rank (Arr xs) = 1 then Ok (Arr (tl xs)) - Ok (Arr (butlast xs))
      else collect (map np_diff xs))"
  by pat_completeness auto

termination
proof (relation "measure size", goal_cases)
  case 1
  show ?case by simp
next
  case (2 xs x)
  then show ?case using size_elem [of x xs] by simp
qed

text \<open>
  \<^verbatim>\<open>np.linspace(start, stop, num)\<close> for scalar \<^verbatim>\<open>start\<close>, \<^verbatim>\<open>stop\<close> and the default
  \<^verbatim>\<open>endpoint=True\<close>, step by step as numpy computes it: a negative \<^verbatim>\<open>num\<close> raises
  \<^verbatim>\<open>ValueError\<close>; \<^verbatim>\<open>y = arange(0, num)\<close>; with \<^verbatim>\<open>div = num - 1 > 0\<close> the entries are
  multiplied by \<^verbatim>\<open>step = delta / div\<close> (or divided by \<^verbatim>\<open>div\<close> and multiplied by \<^verbatim>\<open>delta\<close>
  when the step is zero), otherwise by \<^verbatim>\<open>delta\<close>; \<^verbatim>\<open>start\<close> is added; and when
  \<^verbatim>\<open>num > 1\<close> the last entry is overwritten with \<^verbatim>\<open>stop\<close>.
\<close>

definition np_linspace :: "real \<Rightarrow> real \<Rightarrow> int \<Rightarrow> res" where
  "np_linspace start stop num =
     (if num < 0 then Raise ValueError
      else
        let divisor = num - 1;
            delta = stop - start;
            y0 = map real [0..<nat num];
            y1 = (if divisor > 0 then
                    (let step = delta / real_of_int divisor
                     in if step = 0
                        then map (\<lambda>a. a * delta) (map (\<lambda>a. a / real_of_int divisor) y0)
                        else map (\<lambda>a. a * step) y0)
                  else map (\<lambda>a. a * delta) y0);
            y2 = map (\<lambda>a. a + start) y1;
            y3 = (if num > 1 then y2[nat num - 1 := stop] else y2)
        in Ok (Arr (map Sc y3)))"

text \<open>
  \<^verbatim>\<open>np.meshgrid(x, y)\<close> with the default \<^verbatim>\<open>indexing='xy'\<close>: both inputs are flattened,
  and the two outputs have one row per entry of \<^verbatim>\<open>y\<close> and one column per entry of
  \<^verbatim>\<open>x\<close>, with \<^verbatim>\<open>X[i][j] = x[j]\<close> and \<^verbatim>\<open>Y[i][j] = y[i]\<close>.
\<close>

fun ravel :: "ndarray \<Rightarrow> real list" where
  "ravel (Sc a) = [a]"
| "ravel (Arr xs) = concat (map ravel xs)"

definition np_meshgrid :: "ndarray \<Rightarrow> ndarray \<Rightarrow> ndarray \<times> ndarray" where
  "np_meshgrid x y =
     (let xs = ravel x; ys = ravel y
      in (Arr (map (\<lambda>b. Arr (map (\<lambda>a. Sc a) xs)) ys),
          Arr (map (\<lambda>b. Arr (map (\<lambda>a. Sc b) xs)) ys)))"

section \<open>Statements\<close>

text \<open>
  \<open>assign e k\<close> is the statement \<^verbatim>\<open>x = e\<close> followed by the statements \<open>k x\<close>; \<open>call\<close>
  is the same for a method call that returns a tuple; \<open>for_loop\<close> runs a loop body
  over a list, threading the variables the body updates.
\<close>

definition assign :: "res \<Rightarrow> (ndarray \<Rightarrow> error + 'a) \<Rightarrow> error + 'a" where
  "assign r k = (case r of Raise e \<Rightarrow> Inl e | Ok a \<Rightarrow> k a)"

definition call :: "error + 'a \<Rightarrow> ('a \<Rightarrow> error + 'b) \<Rightarrow> error + 'b" where
  "call r k = (case r of Inl e \<Rightarrow> Inl e | Inr a \<Rightarrow> k a)"

fun for_loop :: "('s \<Rightarrow> 'x \<Rightarrow> error + 's) \<Rightarrow> 'x list \<Rightarrow> 's \<Rightarrow> error + 's" where
  "for_loop body [] s = Inr s"
| "for_loop body (x # xs) s = call (body s x) (for_loop body xs)"

section \<open>The class MobiusStrip\<close>

text \<open>
  The attributes of an instance: \<^verbatim>\<open>self.R\<close> is the field \<open>self_R\<close>, and so on. The
  methods are called by the constructor when only the first seven attributes exist,
  so they take any extension of \<open>grid_attrs\<close>.
\<close>

record grid_attrs =
  self_R :: real
  self_w :: real
  self_n :: int
  self_u :: ndarray
  self_v :: ndarray
  self_U :: ndarray
  self_V :: ndarray

record MobiusStrip = grid_attrs +
  self_mesh :: "ndarray \<times> ndarray \<times> ndarray"
  self_surface_area :: ndarray
  self_edge_length :: ndarray

definition parametric_equations ::
  "'a grid_attrs_scheme \<Rightarrow> ndarray \<Rightarrow> ndarray \<Rightarrow> error + (ndarray \<times> ndarray \<times> ndarray)" where
  "parametric_equations self u v =
     assign ((scalar (self_R self) + Ok v * np_cos (Ok u / scalar 2)) * np_cos (Ok u)) (\<lambda>x.
     assign ((scalar (self_R self) + Ok v * np_cos (Ok u / scalar 2)) * np_sin (Ok u)) (\<lambda>y.
     assign (Ok v * np_sin (Ok u / scalar 2)) (\<lambda>z.
     Inr (x, y, z))))"

definition compute_mesh ::
  "'a grid_attrs_scheme \<Rightarrow> error + (ndarray \<times> ndarray \<times> ndarray)" where
  "compute_mesh self = parametric_equations self (self_U self) (self_V self)"

text \<open>The local function of \<^verbatim>\<open>compute_surface_area\<close>.\<close>

definition partial_derivatives ::
  "'a grid_attrs_scheme \<Rightarrow> ndarray \<Rightarrow> ndarray \<Rightarrow>
   error + ((ndarray \<times> ndarray \<times> ndarray) \<times> (ndarray \<times> ndarray \<times> ndarray))" where
  "partial_derivatives self u v =
     assign ((((- Ok v) * np_sin (Ok u / scalar 2)) * np_cos (Ok u)) / scalar 2
             - (scalar (self_R self) + Ok v * np_cos (Ok u / scalar 2)) * np_sin (Ok u)) (\<lambda>du_x.
     assign ((((- Ok v) * np_sin (Ok u / scalar 2)) * np_sin (Ok u)) / scalar 2
             + (scalar (self_R self) + Ok v * np_cos (Ok u / scalar 2)) * np_cos (Ok u)) (\<lambda>du_y.
     assign ((Ok v * np_cos (Ok u / scalar 2)) / scalar 2) (\<lambda>du_z.
     assign (np_cos (Ok u / scalar 2) * np_cos (Ok u)) (\<lambda>dv_x.
     assign (np_cos (Ok u / scalar 2) * np_sin (Ok u)) (\<lambda>dv_y.
     assign (np_sin (Ok u / scalar 2)) (\<lambda>dv_z.
     Inr ((du_x, du_y, du_z), (dv_x, dv_y, dv_z))))))))"

definition compute_surface_area :: "'a grid_attrs_scheme \<Rightarrow> error + ndarray" where
  "compute_surface_area self =
     call (partial_derivatives self (self_U self) (self_V self))
       (\<lambda>((du0, du1, du2), (dv0, dv1, dv2)).
     assign (np_array [Ok du1 * Ok dv2 - Ok du2 * Ok dv1,
                       Ok du2 * Ok dv0 - Ok du0 * Ok dv2,
                       Ok du0 * Ok dv1 - Ok du1 * Ok dv0]) (\<lambda>cross_product.
     assign (np_sqrt (np_sum_axis0 (pow2 (Ok cross_product)))) (\<lambda>area_element.
     assign (np_getitem (self_u self) 1 - np_getitem (self_u self) 0) (\<lambda>du.
     assign (np_getitem (self_v self) 1 - np_getitem (self_v self) 0) (\<lambda>dv.
     assign (np_sum (Ok area_element) * Ok du * Ok dv) Inr)))))"

text \<open>
  The body of the loop of \<^verbatim>\<open>compute_edge_length\<close>, a function of the accumulator
  \<^verbatim>\<open>edge_length\<close> and of the loop variable \<^verbatim>\<open>v\<close>.
\<close>

definition edge_body :: "'a grid_attrs_scheme \<Rightarrow> ndarray \<Rightarrow> real \<Rightarrow> error + ndarray" where
  "edge_body self edge_length v =
     call (parametric_equations self (self_u self) (Sc v)) (\<lambda>(x, y, z).
     assign (np_diff x) (\<lambda>dx.
     assign (np_diff y) (\<lambda>dy.
     assign (np_diff z) (\<lambda>dz.
     assign (np_sqrt (pow2 (Ok dx) + pow2 (Ok dy) + pow2 (Ok dz))) (\<lambda>segment_lengths.
     assign (Ok edge_length + np_sum (Ok segment_lengths)) Inr)))))"

definition compute_edge_length :: "'a grid_attrs_scheme \<Rightarrow> error + ndarray" where
  "compute_edge_length self =
     for_loop (edge_body self) [self_w self / 2, (- self_w self) / 2] (Sc 0)"

text \<open>The constructor \<^verbatim>\<open>__init__\<close>.\<close>

definition MobiusStrip_init :: "real \<Rightarrow> real \<Rightarrow> int \<Rightarrow> error + MobiusStrip" where
  "MobiusStrip_init R w n =
     assign (np_linspace 0 (2 * pi) n) (\<lambda>u.
     assign (np_linspace ((- w) / 2) (w / 2) n) (\<lambda>v.
     (case np_meshgrid u v of (U, V) \<Rightarrow>
     (let self = \<lparr>self_R = R, self_w = w, self_n = n, self_u = u, self_v = v,
                  self_U = U, self_V = V\<rparr>
      in call (compute_mesh self) (\<lambda>m.
         call (compute_surface_area self) (\<lambda>a.
         call (compute_edge_length self) (\<lambda>e.
         Inr \<lparr>self_R = R, self_w = w, self_n = n, self_u = u, self_v = v,
              self_U = U, self_V = V, self_mesh = m, self_surface_area = a, self_edge_length = e\<rparr>)))))))"

section \<open>The specification's notions\<close>

text \<open>
  The definitions of this section follow the words of the specification; the theorems
  below compare them with the program.
\<close>

text \<open>
  The parametric mapping of section 4.1 at one parameter pair:
  \<open>x = (R + v cos (u/2)) cos u\<close>, \<open>y = (R + v cos (u/2)) sin u\<close>, \<open>z = v sin (u/2)\<close>.
\<close>

definition point :: "real \<Rightarrow> real \<Rightarrow> real \<Rightarrow> real \<times> real \<times> real" where
  "point R u v = ((R + v * cos (u / 2)) * cos u, (R + v * cos (u / 2)) * sin u, v * sin (u / 2))"

text \<open>
  Element-wise evaluation of a function of two numbers over scalars and arrays: a
  scalar is paired with every entry of the other operand, two arrays are paired entry
  by entry. \<open>same_shape\<close> says that two arrays have the same axes.
\<close>

lemma size_zip_left [termination_simp]:
  "(x, y) \<in> set (zip xs ys) \<Longrightarrow> size x < Suc (size_list size xs)"
  using size_elem [of x xs] by (auto dest: set_zip_leftD)

fun same_shape :: "ndarray \<Rightarrow> ndarray \<Rightarrow> bool" where
  "same_shape (Sc a) (Sc b) = True"
| "same_shape (Arr xs) (Arr ys) =
     (length xs = length ys \<and> list_all (\<lambda>(x, y). same_shape x y) (zip xs ys))"
| "same_shape (Sc a) (Arr ys) = False"
| "same_shape (Arr xs) (Sc b) = False"

fun elementwise :: "(real \<Rightarrow> real \<Rightarrow> real) \<Rightarrow> ndarray \<Rightarrow> ndarray \<Rightarrow> ndarray" where
  "elementwise f (Sc a) (Sc b) = Sc (f a b)"
| "elementwise f (Sc a) (Arr ys) = Arr (map (elementwise f (Sc a)) ys)"
| "elementwise f (Arr xs) (Sc b) = Arr (map (\<lambda>x. elementwise f x (Sc b)) xs)"
| "elementwise f (Arr xs) (Arr ys) = Arr (map (\<lambda>(x, y). elementwise f x y) (zip xs ys))"

text \<open>
  Whether an array has the given shape: an array of shape \<open>k # ks\<close> has \<open>k\<close> entries
  along its first axis, each of shape \<open>ks\<close>.
\<close>

fun has_shape :: "nat list \<Rightarrow> ndarray \<Rightarrow> bool" where
  "has_shape [] (Sc a) = True"
| "has_shape (k # ks) (Arr xs) = (length xs = k \<and> list_all (has_shape ks) xs)"
| "has_shape [] (Arr xs) = False"
| "has_shape (k # ks) (Sc a) = False"

text \<open>\<open>n\<close> evenly spaced numbers over the interval from \<open>a\<close> to \<open>b\<close>, both ends included.\<close>

definition evenly_spaced :: "real \<Rightarrow> real \<Rightarrow> nat \<Rightarrow> real list" where
  "evenly_spaced a b n = map (\<lambda>i. a + real i * ((b - a) / real (n - 1))) [0..<n]"

text \<open>
  The analytic partial derivatives of section 4.2, their cross product, its magnitude,
  and the local area element.
\<close>

definition d_du :: "real \<Rightarrow> real \<Rightarrow> real \<Rightarrow> real \<times> real \<times> real" where
  "d_du R u v =
     (- v * sin (u / 2) * cos u / 2 - (R + v * cos (u / 2)) * sin u,
      - v * sin (u / 2) * sin u / 2 + (R + v * cos (u / 2)) * cos u,
      v * cos (u / 2) / 2)"

definition d_dv :: "real \<Rightarrow> real \<Rightarrow> real \<Rightarrow> real \<times> real \<times> real" where
  "d_dv R u v = (cos (u / 2) * cos u, cos (u / 2) * sin u, sin (u / 2))"

fun cross3 :: "real \<times> real \<times> real \<Rightarrow> real \<times> real \<times> real \<Rightarrow> real \<times> real \<times> real" where
  "cross3 (a1, a2, a3) (b1, b2, b3) = (a2 * b3 - a3 * b2, a3 * b1 - a1 * b3, a1 * b2 - a2 * b1)"

fun norm3 :: "real \<times> real \<times> real \<Rightarrow> real" where
  "norm3 (a1, a2, a3) = sqrt (a1 ^ 2 + a2 ^ 2 + a3 ^ 2)"

definition area_element :: "real \<Rightarrow> real \<Rightarrow> real \<Rightarrow> real" where
  "area_element R u v = norm3 (cross3 (d_du R u v) (d_dv R u v))"

text \<open>
  The Euclidean distance of two points and the length of the polyline through a list
  of points: the sum of the distances of consecutive points.
\<close>

fun dist3 :: "real \<times> real \<times> real \<Rightarrow> real \<times> real \<times> real \<Rightarrow> real" where
  "dist3 (x1, y1, z1) (x2, y2, z2) = sqrt ((x2 - x1) ^ 2 + (y2 - y1) ^ 2 + (z2 - z1) ^ 2)"

fun polyline_length :: "(real \<times> real \<times> real) list \<Rightarrow> real" where
  "polyline_length (p # q # ps) = dist3 p q + polyline_length (q # ps)"
| "polyline_length ps = 0"

text \<open>The isometry \<open>(x, y, z) \<mapsto> (x, -y, -z)\<close>, a half turn about the \<open>x\<close> axis.\<close>

definition turn :: "real \<times> real \<times> real \<Rightarrow> real \<times> real \<times> real" where
  "turn p = (case p of (x, y, z) \<Rightarrow> (x, - y, - z))"


section \<open>Auxiliary definitions\<close>

text \<open>
  A one-dimensional array with the entries \<open>zs\<close>, and the two-dimensional array over
  the parameter grid: one row for each \<open>b\<close> of \<open>ys\<close>, one column for each \<open>a\<close> of \<open>xs\<close>,
  with the entry \<open>h a b\<close>.
\<close>

definition vec :: "real list \<Rightarrow> ndarray" where
  "vec zs = Arr (map Sc zs)"

definition grid :: "real list \<Rightarrow> real list \<Rightarrow> (real \<Rightarrow> real \<Rightarrow> real) \<Rightarrow> ndarray" where
  "grid xs ys h = Arr (map (\<lambda>b. vec (map (\<lambda>a. h a b) xs)) ys)"

text \<open>
  The instance the specification describes for \<open>n \<ge> 2\<close>: the two parameter grids of
  \<open>n\<close> evenly spaced numbers, the \<open>n \<times> n\<close> meshes of the mapping, the Riemann sum of
  the area elements and the sum of the two polyline lengths. The constructor is
  compared with it below.
\<close>

definition expected_strip :: "real \<Rightarrow> real \<Rightarrow> int \<Rightarrow> MobiusStrip" where
  "expected_strip R w n =
     (let us = evenly_spaced 0 (2 * pi) (nat n);
          vs = evenly_spaced (- w / 2) (w / 2) (nat n)
      in \<lparr>self_R = R, self_w = w, self_n = n,
          self_u = vec us, self_v = vec vs,
          self_U = grid us vs (\<lambda>u v. u), self_V = grid us vs (\<lambda>u v. v),
          self_mesh = (grid us vs (\<lambda>u v. (R + v * cos (u / 2)) * cos u),
                       grid us vs (\<lambda>u v. (R + v * cos (u / 2)) * sin u),
                       grid us vs (\<lambda>u v. v * sin (u / 2))),
          self_surface_area =
            Sc ((\<Sum>v\<leftarrow>vs. \<Sum>u\<leftarrow>us. area_element R u v) * (us ! 1 - us ! 0) * (vs ! 1 - vs ! 0)),
          self_edge_length =
            Sc (polyline_length (map (\<lambda>u. point R u (w / 2)) us)
                + polyline_length (map (\<lambda>u. point R u (- w / 2)) us))\<rparr>)"

text \<open>
  The pairs of entries that broadcasting combines when at least one operand is an
  array, as \<open>broadcast\<close> selects them: \<open>None\<close> for two scalars and for two arrays that
  cannot be broadcast together. Used to reason about \<open>broadcast\<close> case by case.
\<close>

fun pairs :: "ndarray \<Rightarrow> ndarray \<Rightarrow> (ndarray \<times> ndarray) list option" where
  "pairs (Sc a) (Sc b) = None"
| "pairs (Sc a) (Arr ys) = Some (map (\<lambda>y. (Sc a, y)) ys)"
| "pairs (Arr xs) (Sc b) = Some (map (\<lambda>x. (x, Sc b)) xs)"
| "pairs (Arr xs) (Arr ys) =
     (if rank (Arr xs) < rank (Arr ys) then Some (map (\<lambda>y. (Arr xs, y)) ys)
      else if rank (Arr ys) < rank (Arr xs) then Some (map (\<lambda>x. (x, Arr ys)) xs)
      else if length xs = length ys then Some (zip xs ys)
      else if length xs = 1 then Some (map (\<lambda>y. (hd xs, y)) ys)
      else if length ys = 1 then Some (map (\<lambda>x. (x, hd ys)) xs)
      else None)"

section \<open>Lemmas about the array operations\<close>

lemma collect_Ok: "collect (map (\<lambda>x. Ok (g x)) xs) = Ok (Arr (map g xs))"
  by (induction xs) auto

lemma collect_Ok_cong:
  "(\<And>x. x \<in> set xs \<Longrightarrow> h x = Ok (g x)) \<Longrightarrow> collect (map h xs) = Ok (Arr (map g xs))"
  using collect_Ok [of g xs] by (simp cong: map_cong)

lemma broadcast_Sc_left: "broadcast f (Sc a) b = Ok (nd_map (f a) b)"
  by (induction b) (auto intro: collect_Ok_cong)

lemma broadcast_Sc_right: "broadcast f a (Sc b) = Ok (nd_map (\<lambda>x. f x b) a)"
  by (induction a) (auto intro: collect_Ok_cong)

lemma same_shape_rank: "same_shape a b \<Longrightarrow> rank a = rank b"
proof (induction a b rule: same_shape.induct)
  case (2 xs ys)
  then show ?case
    by (cases xs; cases ys) auto
qed auto

lemma broadcast_same_shape: "same_shape a b \<Longrightarrow> broadcast f a b = Ok (elementwise f a b)"
proof (induction a b rule: same_shape.induct)
  case (2 xs ys)
  have r: "rank (Arr xs) = rank (Arr ys)"
    using "2.prems" by (rule same_shape_rank)
  have len: "length xs = length ys" and all: "list_all (\<lambda>(x, y). same_shape x y) (zip xs ys)"
    using "2.prems" by simp_all
  have "collect (map (\<lambda>(x, y). broadcast f x y) (zip xs ys))
        = Ok (Arr (map (\<lambda>(x, y). elementwise f x y) (zip xs ys)))"
  proof (rule collect_Ok_cong)
    fix p assume p: "p \<in> set (zip xs ys)"
    obtain x y where xy: "p = (x, y)" by (cases p)
    have ss: "same_shape x y" using all p xy by (auto simp: list_all_iff)
    have "broadcast f x y = Ok (elementwise f x y)"
      using "2.IH" len p xy ss by blast
    then show "(case p of (x, y) \<Rightarrow> broadcast f x y) = Ok (case p of (x, y) \<Rightarrow> elementwise f x y)"
      unfolding xy by simp
  qed
  then show ?case using r len by simp
qed simp_all

lemma same_shape_refl: "same_shape a a"
  by (induction a) (auto simp: list_all_iff set_zip)

lemma nd_map_nd_map: "nd_map f (nd_map g a) = nd_map (\<lambda>x. f (g x)) a"
  by (induction a) auto

lemma elementwise_Sc_left: "elementwise h (Sc c) b = nd_map (h c) b"
  by (induction b) auto

lemma elementwise_Sc_right: "elementwise h a (Sc c) = nd_map (\<lambda>x. h x c) a"
  by (induction a) auto

lemma nd_map_elementwise: "nd_map g (elementwise h a b) = elementwise (\<lambda>x y. g (h x y)) a b"
  by (induction h a b rule: elementwise.induct) auto

lemma same_shape_Arr:
  "same_shape (Arr xs) (Arr ys) \<longleftrightarrow>
     length xs = length ys \<and> (\<forall>i < length xs. same_shape (xs ! i) (ys ! i))"
  by (fastforce simp: list_all_iff set_zip)

lemma same_shape_induct [consumes 1, case_names Sc Arr]:
  assumes "same_shape a b"
    and "\<And>x y. P (Sc x) (Sc y)"
    and "\<And>xs ys. length xs = length ys \<Longrightarrow>
           (\<And>i. i < length xs \<Longrightarrow> same_shape (xs ! i) (ys ! i)) \<Longrightarrow>
           (\<And>i. i < length xs \<Longrightarrow> P (xs ! i) (ys ! i)) \<Longrightarrow> P (Arr xs) (Arr ys)"
  shows "P a b"
  using assms(1)
proof (induction a b rule: same_shape.induct)
  case (1 a b)
  show ?case by (rule assms(2))
next
  case (2 xs ys)
  have len: "length xs = length ys" and ss: "\<And>i. i < length xs \<Longrightarrow> same_shape (xs ! i) (ys ! i)"
    using "2.prems" by (simp_all add: same_shape_Arr del: same_shape.simps)
  show ?case
  proof (rule assms(3) [OF len ss])
    fix i assume i: "i < length xs"
    have "(xs ! i, ys ! i) \<in> set (zip xs ys)"
      using i len by (auto simp: set_zip)
    then show "P (xs ! i) (ys ! i)"
      using "2.IH" len ss [OF i] by blast
  qed
qed simp_all

lemma map_zip_nth:
  "length xs = length ys \<Longrightarrow>
   map (\<lambda>(x, y). g x y) (zip xs ys) = map (\<lambda>i. g (xs ! i) (ys ! i)) [0..<length xs]"
  by (rule nth_equalityI) auto

lemma elementwise_Arr:
  "length xs = length ys \<Longrightarrow>
   elementwise f (Arr xs) (Arr ys) = Arr (map (\<lambda>i. elementwise f (xs ! i) (ys ! i)) [0..<length xs])"
  by (simp add: map_zip_nth)

lemma same_shape_elementwise:
  "same_shape a b \<Longrightarrow> same_shape (elementwise h a b) (elementwise k a b)"
proof (induction a b rule: same_shape_induct)
  case (Arr xs ys)
  then show ?case
    by (simp add: elementwise_Arr same_shape_Arr del: same_shape.simps elementwise.simps)
qed simp

lemma same_shape_elementwise_left:
  "same_shape a b \<Longrightarrow> same_shape (elementwise h a b) a"
proof (induction a b rule: same_shape_induct)
  case (Arr xs ys)
  then show ?case
    by (simp add: elementwise_Arr same_shape_Arr del: same_shape.simps elementwise.simps)
qed simp

lemma elementwise_elementwise:
  "same_shape a b \<Longrightarrow>
   elementwise f (elementwise h a b) (elementwise k a b) = elementwise (\<lambda>x y. f (h x y) (k x y)) a b"
proof (induction a b rule: same_shape_induct)
  case (Arr xs ys)
  then show ?case
    by (simp add: elementwise_Arr del: elementwise.simps)
qed simp

lemma elementwise_fst: "same_shape a b \<Longrightarrow> elementwise (\<lambda>x y. x) a b = a"
proof (induction a b rule: same_shape_induct)
  case (Arr xs ys)
  then show ?case
    by (auto simp add: elementwise_Arr simp del: elementwise.simps intro: nth_equalityI)
qed simp

lemma elementwise_snd: "same_shape a b \<Longrightarrow> elementwise (\<lambda>x y. y) a b = b"
proof (induction a b rule: same_shape_induct)
  case (Arr xs ys)
  then show ?case
    by (auto simp add: elementwise_Arr simp del: elementwise.simps intro: nth_equalityI)
qed simp

lemma broadcast_elementwise:
  "same_shape a b \<Longrightarrow>
   broadcast f (elementwise h a b) (elementwise k a b) = Ok (elementwise (\<lambda>x y. f (h x y) (k x y)) a b)"
  by (simp add: broadcast_same_shape same_shape_elementwise elementwise_elementwise)

lemma res_ops:
  "Ok a + Ok b = broadcast (+) a b"
  "Ok a - Ok b = broadcast (-) a b"
  "Ok a * Ok b = broadcast (*) a b"
  "Ok a / Ok b = broadcast (/) a b"
  "- Ok a = Ok (nd_map uminus a)"
  "np_cos (Ok a) = Ok (nd_map cos a)"
  "np_sin (Ok a) = Ok (nd_map sin a)"
  "np_sqrt (Ok a) = Ok (nd_map sqrt a)"
  "pow2 (Ok a) = Ok (nd_map (\<lambda>x. x ^ 2) a)"
  "np_sum (Ok a) = Ok (Sc (nd_sum a))"
  "scalar c = Ok (Sc c)"
  by (simp_all add: plus_res_def minus_res_def times_res_def divide_res_def uminus_res_def
      np_cos_def np_sin_def np_sqrt_def pow2_def np_sum_def scalar_def lift1_def)

lemma stmt_simps:
  "assign (Ok a) k = k a"
  "assign (Raise e) k = Inl e"
  "call (Inr x) k' = k' x"
  "call (Inl e) k' = Inl e"
  by (simp_all add: assign_def call_def)

lemma parametric_equations_elementwise:
  assumes "same_shape a b"
  shows "parametric_equations self (elementwise q a b) (elementwise p a b) =
     Inr (elementwise (\<lambda>x y. (self_R self + p x y * cos (q x y / 2)) * cos (q x y)) a b,
          elementwise (\<lambda>x y. (self_R self + p x y * cos (q x y / 2)) * sin (q x y)) a b,
          elementwise (\<lambda>x y. p x y * sin (q x y / 2)) a b)"
  using assms
  by (simp add: parametric_equations_def res_ops stmt_simps broadcast_Sc_left broadcast_Sc_right
      nd_map_elementwise broadcast_elementwise)

lemma parametric_equations_same_shape:
  assumes "same_shape u v"
  shows "parametric_equations self u v =
     Inr (elementwise (\<lambda>u v. (self_R self + v * cos (u / 2)) * cos u) u v,
          elementwise (\<lambda>u v. (self_R self + v * cos (u / 2)) * sin u) u v,
          elementwise (\<lambda>u v. v * sin (u / 2)) u v)"
  using parametric_equations_elementwise [OF assms, of self "\<lambda>x y. x" "\<lambda>x y. y"] assms
  by (simp add: elementwise_fst elementwise_snd)

lemma broadcast_nd_map:
  "broadcast f (nd_map g a) (nd_map k a) = Ok (nd_map (\<lambda>x. f (g x) (k x)) a)"
  using broadcast_elementwise [OF same_shape_refl, of f "\<lambda>x y. g x" a "\<lambda>x y. k x"]
    nd_map_elementwise [of g "\<lambda>x y. x" a a] nd_map_elementwise [of k "\<lambda>x y. x" a a]
    nd_map_elementwise [of "\<lambda>x. f (g x) (k x)" "\<lambda>x y. x" a a]
  by (simp add: elementwise_fst same_shape_refl)

lemma parametric_equations_scalar_v:
  "parametric_equations self u (Sc c) =
     Inr (elementwise (\<lambda>u v. (self_R self + v * cos (u / 2)) * cos u) u (Sc c),
          elementwise (\<lambda>u v. (self_R self + v * cos (u / 2)) * sin u) u (Sc c),
          elementwise (\<lambda>u v. v * sin (u / 2)) u (Sc c))"
  by (simp add: parametric_equations_def res_ops stmt_simps broadcast_Sc_left broadcast_Sc_right
      nd_map_nd_map broadcast_nd_map elementwise_Sc_right)

lemma parametric_equations_scalar_u:
  "parametric_equations self (Sc c) v =
     Inr (elementwise (\<lambda>u v. (self_R self + v * cos (u / 2)) * cos u) (Sc c) v,
          elementwise (\<lambda>u v. (self_R self + v * cos (u / 2)) * sin u) (Sc c) v,
          elementwise (\<lambda>u v. v * sin (u / 2)) (Sc c) v)"
  by (simp add: parametric_equations_def res_ops stmt_simps broadcast_Sc_left broadcast_Sc_right
      nd_map_nd_map broadcast_nd_map elementwise_Sc_left)

lemma ravel_vec: "ravel (vec zs) = zs"
  by (induction zs) (auto simp: vec_def)

lemma np_meshgrid_vec:
  "np_meshgrid (vec us) (vec vs) = (grid us vs (\<lambda>a b. a), grid us vs (\<lambda>a b. b))"
  by (simp add: np_meshgrid_def ravel_vec) (simp add: grid_def vec_def comp_def)

lemma same_shape_vec: "length as = length bs \<Longrightarrow> same_shape (vec as) (vec bs)"
  by (simp add: vec_def list_all_iff zip_map_map split_def)

lemma elementwise_vec:
  "length as = length bs \<Longrightarrow> elementwise f (vec as) (vec bs) = vec (map (\<lambda>(a, b). f a b) (zip as bs))"
  by (simp add: vec_def zip_map_map split_def)

lemma broadcast_vec:
  "length as = length bs \<Longrightarrow> broadcast f (vec as) (vec bs) = Ok (vec (map (\<lambda>(a, b). f a b) (zip as bs)))"
  by (simp add: broadcast_same_shape same_shape_vec elementwise_vec)

lemma nd_map_vec: "nd_map g (vec zs) = vec (map g zs)"
  by (simp add: vec_def)

lemma nd_sum_vec: "nd_sum (vec zs) = sum_list zs"
  by (simp add: vec_def comp_def)

lemma same_shape_grid: "same_shape (grid xs ys h) (grid xs ys k)"
  by (simp add: grid_def same_shape_Arr same_shape_vec del: same_shape.simps)

lemma elementwise_grid:
  "elementwise f (grid xs ys h) (grid xs ys k) = grid xs ys (\<lambda>a b. f (h a b) (k a b))"
proof -
  have "map (\<lambda>(x, y). elementwise f x y)
          (zip (map (\<lambda>b. vec (map (\<lambda>a. h a b) xs)) ys) (map (\<lambda>b. vec (map (\<lambda>a. k a b) xs)) ys))
        = map (\<lambda>b. vec (map (\<lambda>a. f (h a b) (k a b)) xs)) ys"
    by (simp add: zip_map_map split_def elementwise_vec zip_same_conv_map comp_def)
  then show ?thesis
    by (simp add: grid_def)
qed

lemma nd_map_grid: "nd_map g (grid xs ys h) = grid xs ys (\<lambda>a b. g (h a b))"
  by (simp add: grid_def nd_map_vec comp_def)

lemma nd_sum_grid: "nd_sum (grid xs ys h) = (\<Sum>b\<leftarrow>ys. \<Sum>a\<leftarrow>xs. h a b)"
  by (simp add: grid_def nd_sum_vec comp_def)

lemma broadcast_grid:
  "broadcast f (grid xs ys h) (grid xs ys k) = Ok (grid xs ys (\<lambda>a b. f (h a b) (k a b)))"
  by (simp add: broadcast_same_shape same_shape_grid elementwise_grid)

lemma shape_grid:
  "shape (grid xs ys h) = shape (grid xs ys k)"
  by (cases ys; cases xs) (simp_all add: grid_def vec_def)

lemma np_array3:
  "shape b = shape a \<Longrightarrow> shape c = shape a \<Longrightarrow>
   np_array [Ok a, Ok b, Ok c] = Ok (Arr [a, b, c])"
  by (simp add: np_array_def)

lemma np_sum_axis0_3: "np_sum_axis0 (Ok (Arr [a, b, c])) = Ok a + Ok b + Ok c"
  by (simp add: np_sum_axis0_def)

lemma np_getitem_vec:
  "0 \<le> i \<Longrightarrow> i < int (length zs) \<Longrightarrow> np_getitem (vec zs) i = Ok (Sc (zs ! nat i))"
  by (simp add: vec_def)

lemma partial_derivatives_grid:
  "partial_derivatives self (grid xs ys q) (grid xs ys p) =
     Inr ((grid xs ys (\<lambda>a b. - p a b * sin (q a b / 2) * cos (q a b) / 2
                              - (self_R self + p a b * cos (q a b / 2)) * sin (q a b)),
           grid xs ys (\<lambda>a b. - p a b * sin (q a b / 2) * sin (q a b) / 2
                              + (self_R self + p a b * cos (q a b / 2)) * cos (q a b)),
           grid xs ys (\<lambda>a b. p a b * cos (q a b / 2) / 2)),
          (grid xs ys (\<lambda>a b. cos (q a b / 2) * cos (q a b)),
           grid xs ys (\<lambda>a b. cos (q a b / 2) * sin (q a b)),
           grid xs ys (\<lambda>a b. sin (q a b / 2))))"
  by (simp add: partial_derivatives_def res_ops stmt_simps broadcast_Sc_left broadcast_Sc_right
      nd_map_grid broadcast_grid)

lemma compute_surface_area_grids:
  assumes U: "self_U self = grid xs ys q"
    and V: "self_V self = grid xs ys p"
    and u: "self_u self = vec us" and v: "self_v self = vec vs"
    and lu: "2 \<le> length us" and lv: "2 \<le> length vs"
  shows "compute_surface_area self =
     Inr (Sc ((\<Sum>b\<leftarrow>ys. \<Sum>a\<leftarrow>xs. area_element (self_R self) (q a b) (p a b))
              * (us ! 1 - us ! 0) * (vs ! 1 - vs ! 0)))"
proof -
  have g: "np_getitem (vec us) 1 = Ok (Sc (us ! 1))" "np_getitem (vec us) 0 = Ok (Sc (us ! 0))"
    "np_getitem (vec vs) 1 = Ok (Sc (vs ! 1))" "np_getitem (vec vs) 0 = Ok (Sc (vs ! 0))"
  proof -
    have ne: "us \<noteq> []" "vs \<noteq> []" using lu lv by auto
    show "np_getitem (vec us) 1 = Ok (Sc (us ! 1))" "np_getitem (vec vs) 1 = Ok (Sc (vs ! 1))"
      using lu lv by (simp_all add: np_getitem_vec del: np_getitem.simps)
    show "np_getitem (vec us) 0 = Ok (Sc (us ! 0))" "np_getitem (vec vs) 0 = Ok (Sc (vs ! 0))"
      using ne by (simp_all add: np_getitem_vec del: np_getitem.simps)
  qed
  show ?thesis
    unfolding compute_surface_area_def U V u v partial_derivatives_grid
    by (simp add: res_ops stmt_simps broadcast_grid np_array3 [OF shape_grid shape_grid]
        np_sum_axis0_3 nd_map_grid g nd_sum_grid area_element_def d_du_def d_dv_def
        del: np_getitem.simps)
qed

lemma compute_surface_area_grid:
  assumes "self_U self = grid us vs (\<lambda>a b. a)"
    and "self_V self = grid us vs (\<lambda>a b. b)"
    and "self_u self = vec us" and "self_v self = vec vs"
    and "2 \<le> length us" and "2 \<le> length vs"
  shows "compute_surface_area self =
     Inr (Sc ((\<Sum>b\<leftarrow>vs. \<Sum>a\<leftarrow>us. area_element (self_R self) a b)
              * (us ! 1 - us ! 0) * (vs ! 1 - vs ! 0)))"
  by (rule compute_surface_area_grids [OF assms])

lemma np_linspace_closed:
  assumes "2 \<le> n"
  shows "np_linspace a b n = Ok (vec (evenly_spaced a b (nat n)))"
proof -
  define N where "N = nat n"
  have N: "2 \<le> N" using assms by (simp add: N_def)
  define d where "d = real_of_int (n - 1)"
  have d: "0 < d" using assms by (simp add: d_def)
  have dN: "real (N - 1) = d"
    using assms by (simp add: d_def N_def)
  have c: "\<not> n < 0" "n - 1 > 0" "n > 1" using assms by simp_all
  let ?y = "map (\<lambda>i. real i * ((b - a) / d) + a) [0..<N]"
  have y1: "(if (b - a) / d = 0
             then map (\<lambda>a'. a' * (b - a)) (map (\<lambda>a'. a' / d) (map real [0..<N]))
             else map (\<lambda>a'. a' * ((b - a) / d)) (map real [0..<N]))
            = map (\<lambda>i. real i * ((b - a) / d)) [0..<N]"
    using d by (auto simp: comp_def)
  have last: "?y[N - 1 := b] = ?y"
  proof (rule nth_equalityI)
    show "length (?y[N - 1 := b]) = length ?y" by simp
  next
    fix i assume "i < length (?y[N - 1 := b])"
    then have i: "i < N" by simp
    show "?y[N - 1 := b] ! i = ?y ! i"
    proof (cases "i = N - 1")
      case True
      then have "real i = d" using dN by simp
      then show ?thesis using i d True by (simp add: field_simps)
    next
      case False
      then show ?thesis using i by simp
    qed
  qed
  have "np_linspace a b n =
      Ok (Arr (map Sc ((map (\<lambda>a'. a' + a)
        (if (b - a) / d = 0
         then map (\<lambda>a'. a' * (b - a)) (map (\<lambda>a'. a' / d) (map real [0..<N]))
         else map (\<lambda>a'. a' * ((b - a) / d)) (map real [0..<N])))[N - 1 := b])))"
    unfolding np_linspace_def Let_def N_def d_def using c by (simp only: if_True if_False)
  also have "\<dots> = Ok (Arr (map Sc (?y[N - 1 := b])))"
    unfolding y1 by (simp only: map_map comp_def)
  also have "\<dots> = Ok (Arr (map Sc ?y))"
    unfolding last ..
  also have "?y = evenly_spaced a b N"
    unfolding evenly_spaced_def dN by (simp add: add.commute)
  finally show ?thesis by (simp add: vec_def N_def)
qed

lemma polyline_length_nth:
  "polyline_length ps = (\<Sum>i\<leftarrow>[0..<length ps - 1]. dist3 (ps ! i) (ps ! Suc i))"
proof (induction ps rule: polyline_length.induct)
  case (1 p q ps)
  have "[0..<length (p # q # ps) - 1] = 0 # map Suc [0..<length (q # ps) - 1]"
    by (simp add: upt_conv_Cons map_Suc_upt del: upt_Suc)
  then show ?case using 1 by (simp add: comp_def del: upt_Suc)
qed simp_all

lemma rank_vec: "rank (vec zs) = 1"
  by (cases zs) (simp_all add: vec_def)

lemma np_diff_vec:
  "np_diff (vec zs) = Ok (vec (map (\<lambda>i. zs ! Suc i - zs ! i) [0..<length zs - 1]))"
proof -
  have "np_diff (vec zs) = Ok (vec (tl zs)) - Ok (vec (butlast zs))"
    using rank_vec [of zs] by (simp add: vec_def map_tl map_butlast)
  also have "\<dots> = Ok (vec (map (\<lambda>(a, b). a - b) (zip (tl zs) (butlast zs))))"
    by (simp add: res_ops broadcast_vec)
  also have "map (\<lambda>(a, b). a - b) (zip (tl zs) (butlast zs))
      = map (\<lambda>i. zs ! Suc i - zs ! i) [0..<length zs - 1]"
    by (rule nth_equalityI) (simp_all add: nth_tl nth_butlast)
  finally show ?thesis .
qed

lemma segment_lengths_vec:
  assumes "length DY = length DX" "length DZ = length DX"
  shows "np_sqrt (pow2 (Ok (vec DX)) + pow2 (Ok (vec DY)) + pow2 (Ok (vec DZ))) =
     Ok (vec (map (\<lambda>i. sqrt ((DX ! i) ^ 2 + (DY ! i) ^ 2 + (DZ ! i) ^ 2)) [0..<length DX]))"
proof -
  let ?L = "map sqrt (map (\<lambda>(a, b). a + b)
       (zip (map (\<lambda>(a, b). a + b) (zip (map (\<lambda>x. x ^ 2) DX) (map (\<lambda>x. x ^ 2) DY)))
            (map (\<lambda>x. x ^ 2) DZ)))"
  have "np_sqrt (pow2 (Ok (vec DX)) + pow2 (Ok (vec DY)) + pow2 (Ok (vec DZ))) = Ok (vec ?L)"
    using assms by (simp only: res_ops nd_map_vec broadcast_vec length_map length_zip min.idem)
  also have "?L = map (\<lambda>i. sqrt ((DX ! i) ^ 2 + (DY ! i) ^ 2 + (DZ ! i) ^ 2)) [0..<length DX]"
    using assms by (intro nth_equalityI) simp_all
  finally show ?thesis .
qed

lemma edge_body_vec:
  assumes u: "self_u self = vec us"
  shows "edge_body self (Sc c) v =
     Inr (Sc (c + polyline_length (map (\<lambda>a. point (self_R self) a v) us)))"
proof -
  define X where "X = map (\<lambda>a. (self_R self + v * cos (a / 2)) * cos a) us"
  define Y where "Y = map (\<lambda>a. (self_R self + v * cos (a / 2)) * sin a) us"
  define Z where "Z = map (\<lambda>a. v * sin (a / 2)) us"
  define DX where "DX = map (\<lambda>i. X ! Suc i - X ! i) [0..<length X - 1]"
  define DY where "DY = map (\<lambda>i. Y ! Suc i - Y ! i) [0..<length Y - 1]"
  define DZ where "DZ = map (\<lambda>i. Z ! Suc i - Z ! i) [0..<length Z - 1]"
  have len: "length DX = length us - 1" "length DY = length DX" "length DZ = length DX"
    by (simp_all add: DX_def DY_def DZ_def X_def Y_def Z_def)
  have pe: "parametric_equations self (vec us) (Sc v) = Inr (vec X, vec Y, vec Z)"
    unfolding parametric_equations_scalar_v
    by (simp add: elementwise_Sc_right nd_map_vec X_def Y_def Z_def)
  have d: "np_diff (vec X) = Ok (vec DX)" "np_diff (vec Y) = Ok (vec DY)"
    "np_diff (vec Z) = Ok (vec DZ)"
    by (simp_all only: np_diff_vec DX_def DY_def DZ_def)
  have "edge_body self (Sc c) v =
     Inr (Sc (c + (\<Sum>i\<leftarrow>[0..<length DX]. sqrt ((DX ! i) ^ 2 + (DY ! i) ^ 2 + (DZ ! i) ^ 2))))"
    unfolding edge_body_def u pe
    by (simp only: stmt_simps d segment_lengths_vec [OF len(2,3)] prod.case)
       (simp add: stmt_simps res_ops nd_sum_vec broadcast_Sc_left)
  also have "(\<Sum>i\<leftarrow>[0..<length DX]. sqrt ((DX ! i) ^ 2 + (DY ! i) ^ 2 + (DZ ! i) ^ 2))
      = polyline_length (map (\<lambda>a. point (self_R self) a v) us)"
    unfolding polyline_length_nth len(1)
    by (rule arg_cong [where f = sum_list], rule map_cong)
       (simp_all add: DX_def DY_def DZ_def X_def Y_def Z_def point_def power2_commute)
  finally show ?thesis .
qed

lemma compute_edge_length_vec:
  assumes u: "self_u self = vec us"
  shows "compute_edge_length self =
     Inr (Sc (polyline_length (map (\<lambda>a. point (self_R self) a (self_w self / 2)) us)
            + polyline_length (map (\<lambda>a. point (self_R self) a (- self_w self / 2)) us)))"
  by (simp add: compute_edge_length_def edge_body_vec [OF u] stmt_simps)

section \<open>Lemmas about broadcasting\<close>

lemma collect_not_Sc: "collect rs \<noteq> Ok (Sc a)"
proof (induction rs rule: collect.induct)
  case (3 b rs)
  then show ?case by (cases "collect rs") (auto split: ndarray.splits)
qed simp_all

lemma collect_Cons_Ok:
  "collect (Ok a # rs) = Ok c \<longleftrightarrow> (\<exists>as. collect rs = Ok (Arr as) \<and> c = Arr (a # as))"
proof (cases "collect rs")
  case (Raise e)
  then show ?thesis by simp
next
  case (Ok d)
  then show ?thesis using collect_not_Sc [of rs] by (cases d) auto
qed

lemma collect_map_Ok_list: "collect (map Ok cs) = Ok (Arr cs)"
  by (induction cs) simp_all

lemma collect_Ok_D: "collect rs = Ok c \<Longrightarrow> \<exists>cs. c = Arr cs \<and> rs = map Ok cs"
proof (induction rs arbitrary: c)
  case Nil
  then show ?case by simp
next
  case (Cons r rs)
  show ?case
  proof (cases r)
    case (Raise e)
    then show ?thesis using Cons.prems by simp
  next
    case (Ok a)
    with Cons.prems have "collect (Ok a # rs) = Ok c" by simp
    then obtain as where as: "collect rs = Ok (Arr as)" "c = Arr (a # as)"
      unfolding collect_Cons_Ok by (elim exE conjE)
    from Cons.IH [OF as(1)] have "rs = map Ok as" by simp
    then show ?thesis using as(2) Ok by simp
  qed
qed

lemma collect_map_Ok:
  assumes "collect (map F zs) = Ok c"
  obtains cs where "c = Arr cs" "length cs = length zs" "\<And>i. i < length zs \<Longrightarrow> F (zs ! i) = Ok (cs ! i)"
proof -
  from collect_Ok_D [OF assms] obtain cs where cs: "c = Arr cs" "map F zs = map Ok cs"
    by (elim exE conjE)
  have len: "length cs = length zs"
    using arg_cong [OF cs(2), of length] by simp
  have "F (zs ! i) = Ok (cs ! i)" if "i < length zs" for i
    using arg_cong [OF cs(2), of "\<lambda>l. l ! i"] that len by simp
  then show ?thesis using that cs(1) len by blast
qed

lemma rank_Arr: "rank (Arr xs) = (if xs = [] then 1 else Suc (rank (hd xs)))"
  by (cases xs) simp_all

lemma rank_nd_map: "rank (nd_map g a) = rank a"
proof (induction a)
  case (Sc x)
  show ?case by simp
next
  case (Arr xs)
  then show ?case by (cases xs) simp_all
qed

lemma rank_0: "rank a = 0 \<longleftrightarrow> (\<exists>c. a = Sc c)"
proof (cases a)
  case (Sc c)
  then show ?thesis by simp
next
  case (Arr xs)
  then show ?thesis by (cases xs) simp_all
qed

lemma broadcast_pairs:
  "broadcast f u v =
     (case pairs u v of
        None \<Rightarrow> (case (u, v) of (Sc a, Sc b) \<Rightarrow> Ok (Sc (f a b)) | _ \<Rightarrow> Raise ValueError)
      | Some ps \<Rightarrow> collect (map (\<lambda>(x, y). broadcast f x y) ps))"
proof (cases u)
  case u: (Sc a)
  show ?thesis
  proof (cases v)
    case (Sc b)
    then show ?thesis using u by simp
  next
    case (Arr ys)
    then show ?thesis using u by (simp add: comp_def)
  qed
next
  case u: (Arr xs)
  show ?thesis
  proof (cases v)
    case (Sc b)
    then show ?thesis using u by (simp add: comp_def)
  next
    case (Arr ys)
    then show ?thesis using u by (simp add: comp_def)
  qed
qed

lemma pairs_size:
  assumes "pairs u v = Some ps" "(x, y) \<in> set ps"
  shows "size x + size y < size u + size v"
proof (cases u)
  case u: (Sc a)
  show ?thesis
  proof (cases v)
    case (Sc b)
    then show ?thesis using u assms by simp
  next
    case (Arr ys)
    then have "y \<in> set ys" "x = Sc a" using u assms by auto
    then show ?thesis using size_elem [of y ys] u Arr by simp
  qed
next
  case u: (Arr xs)
  show ?thesis
  proof (cases v)
    case (Sc b)
    then have "x \<in> set xs" "y = Sc b" using u assms by auto
    then show ?thesis using size_elem [of x xs] u Sc by simp
  next
    case (Arr ys)
    have ps: "pairs (Arr xs) (Arr ys) = Some ps" using assms u Arr by simp
    consider (a) "x = Arr xs" "y \<in> set ys" | (b) "x \<in> set xs" "y = Arr ys"
      | (c) "x \<in> set xs" "y \<in> set ys"
      | (d) "length xs = 1" "x = hd xs" "y \<in> set ys" | (e) "length ys = 1" "x \<in> set xs" "y = hd ys"
      using ps assms(2) by (auto split: if_splits dest: set_zip_leftD set_zip_rightD)
    then show ?thesis
    proof cases
      case a
      then show ?thesis using size_elem [of y ys] u Arr by simp
    next
      case b
      then show ?thesis using size_elem [of x xs] u Arr by simp
    next
      case c
      then show ?thesis using size_elem [of x xs] size_elem [of y ys] u Arr by simp
    next
      case d
      then show ?thesis using size_elem [of y ys] size_hd1 [of xs] u Arr by simp
    next
      case e
      then show ?thesis using size_elem [of x xs] size_hd1 [of ys] u Arr by simp
    qed
  qed
qed

lemma pairs_induct [case_names Scalars Pairs Incompatible]:
  assumes "\<And>a b. P (Sc a) (Sc b)"
    and "\<And>u v ps. pairs u v = Some ps \<Longrightarrow> (\<And>x y. (x, y) \<in> set ps \<Longrightarrow> P x y) \<Longrightarrow> P u v"
    and "\<And>xs ys. pairs (Arr xs) (Arr ys) = None \<Longrightarrow> P (Arr xs) (Arr ys)"
  shows "P u v"
proof (induction "size u + size v" arbitrary: u v rule: less_induct)
  case less
  show ?case
  proof (cases "pairs u v")
    case (Some ps)
    show ?thesis
    proof (rule assms(2) [OF Some])
      fix x y assume "(x, y) \<in> set ps"
      then show "P x y" using less pairs_size [OF Some] by blast
    qed
  next
    case None
    show ?thesis
    proof (cases u)
      case u: (Sc a)
      then show ?thesis using None assms(1) by (cases v) simp_all
    next
      case u: (Arr xs)
      then show ?thesis using None assms(3) by (cases v) simp_all
    qed
  qed
qed

lemma broadcast_Some:
  "pairs u v = Some ps \<Longrightarrow> broadcast f u v = collect (map (\<lambda>(x, y). broadcast f x y) ps)"
  using broadcast_pairs [of f u v] by simp

lemma broadcast_None:
  "pairs (Arr xs) (Arr ys) = None \<Longrightarrow> broadcast f (Arr xs) (Arr ys) = Raise ValueError"
  using broadcast_pairs [of f "Arr xs" "Arr ys"] by simp

lemma pairs_nd_map_right:
  "pairs u (nd_map g v) = map_option (map (\<lambda>(x, y). (x, nd_map g y))) (pairs u v)"
proof (cases u)
  case u: (Sc a)
  show ?thesis using u by (cases v) (simp_all add: comp_def)
next
  case u: (Arr xs)
  show ?thesis
  proof (cases v)
    case (Sc b)
    then show ?thesis using u by (simp add: comp_def)
  next
    case (Arr ys)
    have r: "rank (Arr (map (nd_map g) ys)) = rank (Arr ys)"
      using rank_nd_map [of g "Arr ys"] by simp
    have h: "length ys = 1 \<Longrightarrow> hd (map (nd_map g) ys) = nd_map g (hd ys)"
      by (cases ys) simp_all
    have z: "zip xs (map (nd_map g) ys) = map (\<lambda>(x, y). (x, nd_map g y)) (zip xs ys)"
      by (simp add: zip_map2)
    show ?thesis
      unfolding u Arr nd_map.simps pairs.simps r length_map
      using h z by (simp add: comp_def)
  qed
qed

lemma pairs_nd_map_left:
  "pairs (nd_map g u) v = map_option (map (\<lambda>(x, y). (nd_map g x, y))) (pairs u v)"
proof (cases v)
  case v: (Sc b)
  show ?thesis using v by (cases u) (simp_all add: comp_def)
next
  case v: (Arr ys)
  show ?thesis
  proof (cases u)
    case (Sc a)
    then show ?thesis using v by (simp add: comp_def)
  next
    case (Arr xs)
    have r: "rank (Arr (map (nd_map g) xs)) = rank (Arr xs)"
      using rank_nd_map [of g "Arr xs"] by simp
    have h: "length xs = 1 \<Longrightarrow> hd (map (nd_map g) xs) = nd_map g (hd xs)"
      by (cases xs) simp_all
    have z: "zip (map (nd_map g) xs) ys = map (\<lambda>(x, y). (nd_map g x, y)) (zip xs ys)"
      by (simp add: zip_map1)
    show ?thesis
      unfolding v Arr nd_map.simps pairs.simps r length_map
      using h z by (simp add: comp_def)
  qed
qed

lemma collect_cong:
  "(\<And>p. p \<in> set ps \<Longrightarrow> F p = G p) \<Longrightarrow> collect (map F ps) = collect (map G ps)"
  by (simp cong: map_cong)

lemma broadcast_map_right:
  "broadcast f u (nd_map g v) = broadcast (\<lambda>a b. f a (g b)) u v"
proof (induction u v rule: pairs_induct)
  case (Scalars a b)
  show ?case by simp
next
  case (Pairs u v ps)
  have "broadcast f u (nd_map g v)
      = collect (map (\<lambda>(x, y). broadcast f x y) (map (\<lambda>(x, y). (x, nd_map g y)) ps))"
    by (rule broadcast_Some) (simp add: pairs_nd_map_right Pairs(1))
  also have "\<dots> = collect (map (\<lambda>p. broadcast f (fst p) (nd_map g (snd p))) ps)"
    by (simp add: comp_def split_def)
  also have "\<dots> = collect (map (\<lambda>p. broadcast (\<lambda>a b. f a (g b)) (fst p) (snd p)) ps)"
    by (rule collect_cong) (use Pairs(2) in \<open>auto simp: split_paired_all\<close>)
  also have "\<dots> = broadcast (\<lambda>a b. f a (g b)) u v"
    by (simp add: broadcast_Some [OF Pairs(1)] split_def)
  finally show ?case .
next
  case (Incompatible xs ys)
  have "pairs (Arr xs) (Arr (map (nd_map g) ys)) = None"
    using pairs_nd_map_right [of "Arr xs" g "Arr ys"] Incompatible by simp
  then show ?case
    using Incompatible by (simp only: nd_map.simps broadcast_None)
qed

lemma broadcast_map_left:
  "broadcast f (nd_map g u) v = broadcast (\<lambda>a b. f (g a) b) u v"
proof (induction u v rule: pairs_induct)
  case (Scalars a b)
  show ?case by simp
next
  case (Pairs u v ps)
  have "broadcast f (nd_map g u) v
      = collect (map (\<lambda>(x, y). broadcast f x y) (map (\<lambda>(x, y). (nd_map g x, y)) ps))"
    by (rule broadcast_Some) (simp add: pairs_nd_map_left Pairs(1))
  also have "\<dots> = collect (map (\<lambda>p. broadcast f (nd_map g (fst p)) (snd p)) ps)"
    by (simp add: comp_def split_def)
  also have "\<dots> = collect (map (\<lambda>p. broadcast (\<lambda>a b. f (g a) b) (fst p) (snd p)) ps)"
    by (rule collect_cong) (use Pairs(2) in \<open>auto simp: split_paired_all\<close>)
  also have "\<dots> = broadcast (\<lambda>a b. f (g a) b) u v"
    by (simp add: broadcast_Some [OF Pairs(1)] split_def)
  finally show ?case .
next
  case (Incompatible xs ys)
  have "pairs (Arr (map (nd_map g) xs)) (Arr ys) = None"
    using pairs_nd_map_left [of g "Arr xs" "Arr ys"] Incompatible by simp
  then show ?case
    using Incompatible by (simp only: nd_map.simps broadcast_None)
qed

lemma lift1_simps:
  "lift1 g (Raise e) = Raise e"
  "lift1 g (Ok a) = Ok (nd_map g a)"
  by (simp_all add: lift1_def)

lemma lift1_collect: "lift1 g (collect rs) = collect (map (lift1 g) rs)"
proof (induction rs)
  case Nil
  show ?case by (simp add: lift1_simps)
next
  case (Cons r rs)
  show ?case
  proof (cases r)
    case (Raise e)
    then show ?thesis by (simp add: lift1_simps)
  next
    case r: (Ok a)
    show ?thesis
    proof (cases "collect rs")
      case c: (Raise e)
      then have "collect (map (lift1 g) rs) = Raise e"
        using Cons by (simp add: lift1_simps)
      then show ?thesis using c r by (simp add: lift1_simps)
    next
      case c: (Ok d)
      then obtain cs where d: "d = Arr cs" using collect_Ok_D by blast
      then have "collect (map (lift1 g) rs) = Ok (Arr (map (nd_map g) cs))"
        using Cons c by (simp add: lift1_simps)
      then show ?thesis using c d r by (simp add: lift1_simps)
    qed
  qed
qed

lemma lift1_broadcast:
  "lift1 g (broadcast f u v) = broadcast (\<lambda>a b. g (f a b)) u v"
proof (induction u v rule: pairs_induct)
  case (Scalars a b)
  show ?case by (simp add: lift1_simps)
next
  case (Pairs u v ps)
  have "lift1 g (broadcast f u v) = collect (map (\<lambda>p. lift1 g (broadcast f (fst p) (snd p))) ps)"
    by (simp add: broadcast_Some [OF Pairs(1)] lift1_collect comp_def split_def)
  also have "\<dots> = collect (map (\<lambda>p. broadcast (\<lambda>a b. g (f a b)) (fst p) (snd p)) ps)"
    by (rule collect_cong) (use Pairs(2) in \<open>auto simp: split_paired_all\<close>)
  also have "\<dots> = broadcast (\<lambda>a b. g (f a b)) u v"
    by (simp add: broadcast_Some [OF Pairs(1)] split_def)
  finally show ?case .
next
  case (Incompatible xs ys)
  then show ?case by (simp only: broadcast_None) (simp add: lift1_simps)
qed

lemma pairs_swap: "pairs v u = map_option (map (\<lambda>(x, y). (y, x))) (pairs u v)"
proof (cases u)
  case u: (Sc a)
  show ?thesis using u by (cases v) (simp_all add: comp_def)
next
  case u: (Arr xs)
  show ?thesis
  proof (cases v)
    case (Sc b)
    then show ?thesis using u by (simp add: comp_def)
  next
    case (Arr ys)
    have z: "zip ys xs = map (\<lambda>(x, y). (y, x)) (zip xs ys)"
      by (simp add: zip_commute [of ys xs] split_def)
    show ?thesis
      unfolding u Arr pairs.simps using z by (auto simp: comp_def)
  qed
qed

lemma broadcast_swap: "broadcast f v u = broadcast (\<lambda>a b. f b a) u v"
proof (induction u v rule: pairs_induct)
  case (Scalars a b)
  show ?case by simp
next
  case (Pairs u v ps)
  have "broadcast f v u = collect (map (\<lambda>(x, y). broadcast f x y) (map (\<lambda>(x, y). (y, x)) ps))"
    by (rule broadcast_Some) (simp add: pairs_swap [of v u] Pairs(1))
  also have "\<dots> = collect (map (\<lambda>p. broadcast f (snd p) (fst p)) ps)"
    by (simp add: comp_def split_def)
  also have "\<dots> = collect (map (\<lambda>p. broadcast (\<lambda>a b. f b a) (fst p) (snd p)) ps)"
    by (rule collect_cong) (use Pairs(2) in \<open>auto simp: split_paired_all\<close>)
  also have "\<dots> = broadcast (\<lambda>a b. f b a) u v"
    by (simp add: broadcast_Some [OF Pairs(1)] split_def)
  finally show ?case .
next
  case (Incompatible xs ys)
  have "pairs (Arr ys) (Arr xs) = None"
    using pairs_swap [of "Arr ys" "Arr xs"] Incompatible by simp
  then show ?case
    using Incompatible by (simp only: broadcast_None)
qed

lemma pairs_rank:
  assumes "pairs u v = Some ps"
  shows "max (rank u) (rank v) =
         (if ps = [] then 1 else Suc (max (rank (fst (hd ps))) (rank (snd (hd ps)))))"
proof (cases u)
  case u: (Sc a)
  show ?thesis
  proof (cases v)
    case (Sc b)
    then show ?thesis using u assms by simp
  next
    case (Arr ys)
    then show ?thesis using u assms by (cases ys) auto
  qed
next
  case u: (Arr xs)
  show ?thesis
  proof (cases v)
    case (Sc b)
    then show ?thesis using u assms by (cases xs) auto
  next
    case (Arr ys)
    have ps: "pairs (Arr xs) (Arr ys) = Some ps" using assms u Arr by simp
    show ?thesis
      unfolding u Arr using ps
      by (cases xs; cases ys) (auto split: if_splits simp: hd_map)
  qed
qed

lemma rank_broadcast:
  "broadcast f u v = Ok c \<Longrightarrow> rank c = max (rank u) (rank v)"
proof (induction u v arbitrary: c rule: pairs_induct)
  case (Scalars a b)
  then show ?case by auto
next
  case (Pairs u v ps)
  let ?F = "\<lambda>(x, y). broadcast f x y"
  from Pairs(3) have "collect (map ?F ps) = Ok c"
    by (simp only: broadcast_Some [OF Pairs(1)])
  then obtain cs where cs: "c = Arr cs" "length cs = length ps"
    "\<And>i. i < length ps \<Longrightarrow> ?F (ps ! i) = Ok (cs ! i)"
    by (rule collect_map_Ok) blast
  show ?case
  proof (cases "ps = []")
    case True
    then show ?thesis using cs pairs_rank [OF Pairs(1)] by simp
  next
    case False
    then have ne: "cs \<noteq> []" "0 < length ps" using cs(2) by auto
    obtain x y where xy: "hd ps = (x, y)" by (cases "hd ps")
    have mem: "(x, y) \<in> set ps" using False xy by (metis hd_in_set)
    have "broadcast f x y = Ok (hd cs)"
      using cs(3) [OF ne(2)] xy False ne(1) by (simp add: hd_conv_nth)
    then have "rank (hd cs) = max (rank x) (rank y)"
      by (rule Pairs(2) [OF mem])
    then show ?thesis
      using cs(1) ne(1) False xy pairs_rank [OF Pairs(1)] by (simp add: rank_Arr)
  qed
next
  case (Incompatible xs ys)
  then show ?case by (simp only: broadcast_None) simp
qed

lemma pairs_result:
  assumes ps: "pairs u v = Some ps" and len: "length cs = length ps"
    and r: "rank (Arr cs) = max (rank u) (rank v)"
  shows "pairs (Arr cs) (nd_map k u) = Some (zip cs (map (\<lambda>p. nd_map k (fst p)) ps))"
proof (cases u)
  case u: (Sc a)
  show ?thesis
  proof (cases v)
    case (Sc b)
    then show ?thesis using u ps by simp
  next
    case (Arr ys)
    then have "ps = map (\<lambda>y. (Sc a, y)) ys" using u ps by simp
    then have "zip cs (map (\<lambda>p. nd_map k (fst p)) ps) = map (\<lambda>x. (x, Sc (k a))) cs"
      using len by (intro nth_equalityI) simp_all
    then show ?thesis using u by simp
  qed
next
  case u: (Arr xs)
  have ru: "rank (Arr (map (nd_map k) xs)) = rank (Arr xs)"
    using rank_nd_map [of k "Arr xs"] by simp
  show ?thesis
  proof (cases v)
    case (Sc b)
    then have p: "ps = map (\<lambda>x. (x, Sc b)) xs" using u ps by simp
    then have "zip cs (map (\<lambda>p. nd_map k (fst p)) ps) = zip cs (map (nd_map k) xs)"
      by (simp add: comp_def)
    moreover have "rank (Arr cs) = rank (Arr xs)" "length cs = length xs"
      using r len u Sc p by simp_all
    ultimately show ?thesis using u ru by simp
  next
    case (Arr ys)
    have P: "pairs (Arr xs) (Arr ys) = Some ps" using ps u Arr by simp
    have R: "rank (Arr cs) = max (rank (Arr xs)) (rank (Arr ys))" using r u Arr by simp
    consider (a) "rank (Arr xs) < rank (Arr ys)" "ps = map (\<lambda>y. (Arr xs, y)) ys"
      | (b) "rank (Arr ys) < rank (Arr xs)" "ps = map (\<lambda>x. (x, Arr ys)) xs"
      | (c) "rank (Arr xs) = rank (Arr ys)" "length xs = length ys" "ps = zip xs ys"
      | (d) "rank (Arr xs) = rank (Arr ys)" "length xs \<noteq> length ys" "length xs = 1"
          "ps = map (\<lambda>y. (hd xs, y)) ys"
      | (e) "rank (Arr xs) = rank (Arr ys)" "length xs \<noteq> length ys" "length xs \<noteq> 1"
          "length ys = 1" "ps = map (\<lambda>x. (x, hd ys)) xs"
      using P by (auto split: if_splits)
    then show ?thesis
    proof cases
      case a
      have "zip cs (map (\<lambda>p. nd_map k (fst p)) ps) = map (\<lambda>x. (x, Arr (map (nd_map k) xs))) cs"
        using len a(2) by (intro nth_equalityI) simp_all
      moreover have "rank (Arr (map (nd_map k) xs)) < rank (Arr cs)"
        using R a(1) ru by simp
      ultimately show ?thesis using u by simp
    next
      case b
      have "zip cs (map (\<lambda>p. nd_map k (fst p)) ps) = zip cs (map (nd_map k) xs)"
        using b(2) by (simp add: comp_def)
      moreover have "rank (Arr cs) = rank (Arr (map (nd_map k) xs))" "length cs = length xs"
        using R b len ru by simp_all
      ultimately show ?thesis using u by simp
    next
      case c
      have "map (\<lambda>p. nd_map k (fst p)) ps = map (nd_map k) xs"
        using c(2,3) by (intro nth_equalityI) simp_all
      moreover have "rank (Arr cs) = rank (Arr (map (nd_map k) xs))" "length cs = length xs"
        using R c len ru by simp_all
      ultimately show ?thesis using u by simp
    next
      case d
      have hd: "hd (map (nd_map k) xs) = nd_map k (hd xs)"
        using d(3) by (cases xs) simp_all
      have "zip cs (map (\<lambda>p. nd_map k (fst p)) ps) = map (\<lambda>x. (x, nd_map k (hd xs))) cs"
        using len d(4) by (intro nth_equalityI) simp_all
      moreover have "rank (Arr cs) = rank (Arr (map (nd_map k) xs))" "length cs = length ys"
        using R d len ru by simp_all
      ultimately show ?thesis using u d(2,3) hd by simp
    next
      case e
      have "zip cs (map (\<lambda>p. nd_map k (fst p)) ps) = zip cs (map (nd_map k) xs)"
        using e(5) by (simp add: comp_def)
      moreover have "rank (Arr cs) = rank (Arr (map (nd_map k) xs))" "length cs = length xs"
        using R e len ru by simp_all
      ultimately show ?thesis using u by simp
    qed
  qed
qed

lemma broadcast_result_left:
  "broadcast h u v = Ok c \<Longrightarrow>
   broadcast f c (nd_map k u) = broadcast (\<lambda>a b. f (h a b) (k a)) u v"
proof (induction u v arbitrary: c rule: pairs_induct)
  case (Scalars a b)
  then show ?case by auto
next
  case (Pairs u v ps)
  let ?H = "\<lambda>(x, y). broadcast h x y"
  let ?ws = "map (\<lambda>p. nd_map k (fst p)) ps"
  from Pairs(3) have "collect (map ?H ps) = Ok c"
    by (simp only: broadcast_Some [OF Pairs(1)])
  then obtain cs where cs: "c = Arr cs" "length cs = length ps"
    "\<And>i. i < length ps \<Longrightarrow> ?H (ps ! i) = Ok (cs ! i)"
    by (rule collect_map_Ok) blast
  have r: "rank (Arr cs) = max (rank u) (rank v)"
    using rank_broadcast [OF Pairs(3)] cs(1) by simp
  have "broadcast f c (nd_map k u) = collect (map (\<lambda>(x, y). broadcast f x y) (zip cs ?ws))"
    unfolding cs(1) by (rule broadcast_Some) (rule pairs_result [OF Pairs(1) cs(2) r])
  also have "map (\<lambda>(x, y). broadcast f x y) (zip cs ?ws)
      = map (\<lambda>(x, y). broadcast (\<lambda>a b. f (h a b) (k a)) x y) ps"
  proof (rule nth_equalityI)
    show "length (map (\<lambda>(x, y). broadcast f x y) (zip cs ?ws))
        = length (map (\<lambda>(x, y). broadcast (\<lambda>a b. f (h a b) (k a)) x y) ps)"
      using cs(2) by simp
  next
    fix i assume "i < length (map (\<lambda>(x, y). broadcast f x y) (zip cs ?ws))"
    then have i: "i < length ps" using cs(2) by simp
    obtain x y where xy: "ps ! i = (x, y)" by (cases "ps ! i")
    have mem: "(x, y) \<in> set ps" using i xy by (metis nth_mem)
    have "broadcast h x y = Ok (cs ! i)" using cs(3) [OF i] xy by simp
    then have "broadcast f (cs ! i) (nd_map k x) = broadcast (\<lambda>a b. f (h a b) (k a)) x y"
      by (rule Pairs(2) [OF mem])
    then show "map (\<lambda>(x, y). broadcast f x y) (zip cs ?ws) ! i
        = map (\<lambda>(x, y). broadcast (\<lambda>a b. f (h a b) (k a)) x y) ps ! i"
      using i cs(2) xy by simp
  qed
  also have "collect (map (\<lambda>(x, y). broadcast (\<lambda>a b. f (h a b) (k a)) x y) ps)
      = broadcast (\<lambda>a b. f (h a b) (k a)) u v"
    by (simp only: broadcast_Some [OF Pairs(1)])
  finally show ?case .
next
  case (Incompatible xs ys)
  then show ?case by (simp only: broadcast_None) simp
qed

lemma collect_Raise_D: "collect rs = Raise e \<Longrightarrow> Raise e \<in> set rs"
proof (induction rs)
  case Nil
  then show ?case by simp
next
  case (Cons r rs)
  show ?case
  proof (cases r)
    case (Raise e')
    then show ?thesis using Cons.prems by simp
  next
    case r: (Ok a)
    show ?thesis
    proof (cases "collect rs")
      case c: (Raise e')
      then have "e' = e" using Cons.prems r by simp
      then show ?thesis using Cons.IH c by simp
    next
      case c: (Ok d)
      then obtain cs where "d = Arr cs" using collect_Ok_D by blast
      then show ?thesis using Cons.prems r c by simp
    qed
  qed
qed

lemma collect_all_Ok:
  "(\<And>r. r \<in> set rs \<Longrightarrow> \<exists>a. r = Ok a) \<Longrightarrow> \<exists>c. collect rs = Ok c"
proof (induction rs)
  case Nil
  show ?case by simp
next
  case (Cons r rs)
  then obtain a where a: "r = Ok a" by auto
  from Cons obtain c where c: "collect rs = Ok c" by auto
  then obtain cs where "c = Arr cs" using collect_Ok_D by blast
  then show ?case using a c by simp
qed

lemma broadcast_Raise: "broadcast f u v = Raise e \<Longrightarrow> e = ValueError"
proof (induction u v rule: pairs_induct)
  case (Scalars a b)
  then show ?case by simp
next
  case (Pairs u v ps)
  from Pairs(3) have "collect (map (\<lambda>(x, y). broadcast f x y) ps) = Raise e"
    by (simp only: broadcast_Some [OF Pairs(1)])
  then have "Raise e \<in> set (map (\<lambda>(x, y). broadcast f x y) ps)"
    by (rule collect_Raise_D)
  then obtain x y where "(x, y) \<in> set ps" "broadcast f x y = Raise e"
    by auto
  then show ?case using Pairs(2) by blast
next
  case (Incompatible xs ys)
  then show ?case by (simp only: broadcast_None) simp
qed

lemma broadcast_Ok_any:
  "broadcast f u v = Ok c \<Longrightarrow> \<exists>c'. broadcast g u v = Ok c'"
proof (induction u v arbitrary: c rule: pairs_induct)
  case (Scalars a b)
  show ?case by simp
next
  case (Pairs u v ps)
  from Pairs(3) have "collect (map (\<lambda>(x, y). broadcast f x y) ps) = Ok c"
    by (simp only: broadcast_Some [OF Pairs(1)])
  then obtain cs where cs: "length cs = length ps"
    "\<And>i. i < length ps \<Longrightarrow> (\<lambda>(x, y). broadcast f x y) (ps ! i) = Ok (cs ! i)"
    by (rule collect_map_Ok) blast
  have "\<exists>a. r = Ok a" if "r \<in> set (map (\<lambda>(x, y). broadcast g x y) ps)" for r
  proof -
    from that obtain i where i: "i < length ps" "r = (\<lambda>(x, y). broadcast g x y) (ps ! i)"
      by (auto simp: in_set_conv_nth)
    obtain x y where xy: "ps ! i = (x, y)" by (cases "ps ! i")
    have mem: "(x, y) \<in> set ps" using i(1) xy by (metis nth_mem)
    have "broadcast f x y = Ok (cs ! i)" using cs(2) [OF i(1)] xy by simp
    from Pairs(2) [OF mem this] show ?thesis using i(2) xy by simp
  qed
  then have "\<exists>c'. collect (map (\<lambda>(x, y). broadcast g x y) ps) = Ok c'"
    by (rule collect_all_Ok)
  then show ?case by (simp only: broadcast_Some [OF Pairs(1)])
next
  case (Incompatible xs ys)
  then show ?case by (simp only: broadcast_None) simp
qed

lemma broadcast_Raise_any:
  assumes "broadcast f u v = Raise e"
  shows "broadcast g u v = Raise e"
proof (cases "broadcast g u v")
  case (Raise e')
  then show ?thesis using broadcast_Raise [OF assms] broadcast_Raise [OF Raise] by simp
next
  case (Ok c)
  then show ?thesis using broadcast_Ok_any [OF Ok, of f] assms by simp
qed

lemma scalar_plus: "Ok (Sc r) + t = lift1 ((+) r) t"
  by (cases t) (simp_all add: plus_res_def lift1_simps broadcast_Sc_left)

lemma lift2_broadcast_left:
  "lift2 f (broadcast h u v) (Ok (nd_map k u)) = broadcast (\<lambda>a b. f (h a b) (k a)) u v"
proof (cases "broadcast h u v")
  case (Raise e)
  then show ?thesis using broadcast_Raise_any [OF Raise] by simp
next
  case (Ok c)
  then show ?thesis using broadcast_result_left [OF Ok] by simp
qed

lemma times_map_left:
  "Ok v * Ok (nd_map g u) = broadcast (\<lambda>a b. b * g a) u v"
  unfolding times_res_def lift2.simps broadcast_map_right
  by (rule broadcast_swap)

lemma parametric_equations_broadcast:
  "parametric_equations self u v =
     assign (broadcast (\<lambda>u v. (self_R self + v * cos (u / 2)) * cos u) u v) (\<lambda>x.
     assign (broadcast (\<lambda>u v. (self_R self + v * cos (u / 2)) * sin u) u v) (\<lambda>y.
     assign (broadcast (\<lambda>u v. v * sin (u / 2)) u v) (\<lambda>z.
     Inr (x, y, z))))"
proof -
  have half: "Ok u / scalar 2 = Ok (nd_map (\<lambda>a. a / 2) u)"
    by (simp add: res_ops broadcast_Sc_right)
  have cu: "np_cos (Ok u) = Ok (nd_map cos u)" and su: "np_sin (Ok u) = Ok (nd_map sin u)"
    by (simp_all add: res_ops)
  have c: "np_cos (Ok u / scalar 2) = Ok (nd_map (\<lambda>a. cos (a / 2)) u)"
    and s: "np_sin (Ok u / scalar 2) = Ok (nd_map (\<lambda>a. sin (a / 2)) u)"
    unfolding half by (simp_all add: res_ops nd_map_nd_map)
  have t3: "scalar (self_R self) + Ok v * np_cos (Ok u / scalar 2)
      = broadcast (\<lambda>a b. self_R self + b * cos (a / 2)) u v"
    unfolding c times_map_left
    unfolding scalar_def scalar_plus
    by (rule lift1_broadcast)
  have x: "(scalar (self_R self) + Ok v * np_cos (Ok u / scalar 2)) * np_cos (Ok u)
      = broadcast (\<lambda>u v. (self_R self + v * cos (u / 2)) * cos u) u v"
    unfolding t3 cu
    unfolding times_res_def
    by (rule lift2_broadcast_left)
  have y: "(scalar (self_R self) + Ok v * np_cos (Ok u / scalar 2)) * np_sin (Ok u)
      = broadcast (\<lambda>u v. (self_R self + v * cos (u / 2)) * sin u) u v"
    unfolding t3 su
    unfolding times_res_def
    by (rule lift2_broadcast_left)
  have z: "Ok v * np_sin (Ok u / scalar 2) = broadcast (\<lambda>u v. v * sin (u / 2)) u v"
    unfolding s by (rule times_map_left)
  show ?thesis
    unfolding parametric_equations_def x y z ..
qed

lemma parametric_equations_Inl:
  assumes "parametric_equations self u v = Inl e"
  shows "e = ValueError"
proof -
  let ?fx = "\<lambda>u v. (self_R self + v * cos (u / 2)) * cos u"
  let ?fy = "\<lambda>u v. (self_R self + v * cos (u / 2)) * sin u"
  let ?fz = "\<lambda>u v. v * sin (u / 2)"
  show ?thesis
  proof (cases "broadcast ?fx u v")
    case (Raise e')
    then have "e' = e" using assms by (simp add: parametric_equations_broadcast stmt_simps)
    then show ?thesis using broadcast_Raise [OF Raise] by simp
  next
    case (Ok x)
    obtain y where y: "broadcast ?fy u v = Ok y"
      using broadcast_Ok_any [OF Ok] by blast
    obtain z where z: "broadcast ?fz u v = Ok z"
      using broadcast_Ok_any [OF Ok] by blast
    show ?thesis
      using assms by (simp add: parametric_equations_broadcast stmt_simps Ok y z)
  qed
qed

lemma incompatible_example:
  "parametric_equations self (Arr [Sc 0, Sc 1]) (Arr [Sc 0, Sc 1, Sc 2]) = Inl ValueError"
  by (simp add: parametric_equations_broadcast stmt_simps)

section \<open>Lemmas about the class\<close>

lemma length_evenly_spaced: "length (evenly_spaced a b n) = n"
  by (simp add: evenly_spaced_def)

lemma compute_mesh_grid:
  assumes "self_U self = grid us vs (\<lambda>u v. u)" "self_V self = grid us vs (\<lambda>u v. v)"
  shows "compute_mesh self =
     Inr (grid us vs (\<lambda>u v. (self_R self + v * cos (u / 2)) * cos u),
          grid us vs (\<lambda>u v. (self_R self + v * cos (u / 2)) * sin u),
          grid us vs (\<lambda>u v. v * sin (u / 2)))"
  unfolding compute_mesh_def assms
  by (simp add: parametric_equations_same_shape [OF same_shape_grid] elementwise_grid)

lemma MobiusStrip_init_closed:
  assumes n: "2 \<le> n"
  shows "MobiusStrip_init R w n = Inr (expected_strip R w n)"
proof -
  define us where "us = evenly_spaced 0 (2 * pi) (nat n)"
  define vs where "vs = evenly_spaced (- w / 2) (w / 2) (nat n)"
  define self where "self = \<lparr>self_R = R, self_w = w, self_n = n, self_u = vec us, self_v = vec vs,
    self_U = grid us vs (\<lambda>u v. u), self_V = grid us vs (\<lambda>u v. v)\<rparr>"
  have len: "2 \<le> length us" "2 \<le> length vs"
    using n by (simp_all add: us_def vs_def length_evenly_spaced)
  have sel: "self_U self = grid us vs (\<lambda>u v. u)" "self_V self = grid us vs (\<lambda>u v. v)"
    "self_u self = vec us" "self_v self = vec vs" "self_R self = R" "self_w self = w"
    by (simp_all add: self_def)
  have lin: "np_linspace 0 (2 * pi) n = Ok (vec us)"
    "np_linspace ((- w) / 2) (w / 2) n = Ok (vec vs)"
    using n by (simp_all add: np_linspace_closed us_def vs_def)
  have m: "compute_mesh self =
     Inr (grid us vs (\<lambda>u v. (R + v * cos (u / 2)) * cos u),
          grid us vs (\<lambda>u v. (R + v * cos (u / 2)) * sin u),
          grid us vs (\<lambda>u v. v * sin (u / 2)))"
    using compute_mesh_grid [OF sel(1,2)] by (simp add: sel)
  have a: "compute_surface_area self =
     Inr (Sc ((\<Sum>v\<leftarrow>vs. \<Sum>u\<leftarrow>us. area_element R u v) * (us ! 1 - us ! 0) * (vs ! 1 - vs ! 0)))"
    using compute_surface_area_grid [OF sel(1,2,3,4) len] by (simp add: sel)
  have e: "compute_edge_length self =
     Inr (Sc (polyline_length (map (\<lambda>u. point R u (w / 2)) us)
            + polyline_length (map (\<lambda>u. point R u (- w / 2)) us)))"
    using compute_edge_length_vec [OF sel(3)] by (simp add: sel)
  show ?thesis
    unfolding MobiusStrip_init_def lin stmt_simps np_meshgrid_vec prod.case Let_def
      self_def [symmetric] m a e
    by (simp add: expected_strip_def Let_def us_def vs_def self_def)
qed

lemma compute_surface_area_short:
  assumes U: "self_U self = grid us vs (\<lambda>a b. a)"
    and V: "self_V self = grid us vs (\<lambda>a b. b)"
    and u: "self_u self = vec us"
    and lu: "length us < 2"
  shows "compute_surface_area self = Inl IndexError"
proof -
  have g: "np_getitem (vec us) 1 = Raise IndexError"
    using lu by (simp add: vec_def)
  show ?thesis
    unfolding compute_surface_area_def U V u partial_derivatives_grid
    by (simp add: res_ops stmt_simps broadcast_grid np_array3 [OF shape_grid shape_grid]
        np_sum_axis0_3 nd_map_grid g minus_res_def
        del: np_getitem.simps)
qed

lemma np_linspace_short:
  assumes "0 \<le> n" "n < 2"
  shows "np_linspace a b n = Ok (vec (if n = 0 then [] else [a]))"
proof -
  from assms consider "n = 0" | "n = 1" by linarith
  then show ?thesis
    by cases (simp_all add: np_linspace_def vec_def)
qed

lemma MobiusStrip_init_short:
  assumes "0 \<le> n" "n < 2"
  shows "MobiusStrip_init R w n = Inl IndexError"
proof -
  define us where "us = (if n = 0 then [] else [0::real])"
  define vs where "vs = (if n = 0 then [] else [(- w) / 2])"
  define self where "self = \<lparr>self_R = R, self_w = w, self_n = n, self_u = vec us, self_v = vec vs,
    self_U = grid us vs (\<lambda>u v. u), self_V = grid us vs (\<lambda>u v. v)\<rparr>"
  have sel: "self_U self = grid us vs (\<lambda>u v. u)" "self_V self = grid us vs (\<lambda>u v. v)"
    "self_u self = vec us"
    by (simp_all add: self_def)
  have lin: "np_linspace 0 (2 * pi) n = Ok (vec us)"
    "np_linspace ((- w) / 2) (w / 2) n = Ok (vec vs)"
    using assms by (simp_all add: np_linspace_short us_def vs_def)
  have m: "compute_mesh self =
     Inr (grid us vs (\<lambda>u v. (self_R self + v * cos (u / 2)) * cos u),
          grid us vs (\<lambda>u v. (self_R self + v * cos (u / 2)) * sin u),
          grid us vs (\<lambda>u v. v * sin (u / 2)))"
    by (rule compute_mesh_grid [OF sel(1,2)])
  have a: "compute_surface_area self = Inl IndexError"
    by (rule compute_surface_area_short [OF sel]) (simp add: us_def)
  show ?thesis
    unfolding MobiusStrip_init_def lin stmt_simps np_meshgrid_vec prod.case Let_def
      self_def [symmetric] m a
    by (simp add: stmt_simps)
qed

lemma MobiusStrip_init_negative:
  assumes "n < 0"
  shows "MobiusStrip_init R w n = Inl ValueError"
  using assms by (simp add: MobiusStrip_init_def np_linspace_def stmt_simps)

lemma evenly_spaced_nth:
  "i < n \<Longrightarrow> evenly_spaced a b n ! i = a + real i * ((b - a) / real (n - 1))"
  by (simp add: evenly_spaced_def)

lemma evenly_spaced_step:
  assumes "2 \<le> n"
  shows "evenly_spaced a b n ! 1 - evenly_spaced a b n ! 0 = (b - a) / real (n - 1)"
  using assms by (simp add: evenly_spaced_nth)

lemma evenly_spaced_rev:
  assumes "2 \<le> n"
  shows "map (\<lambda>x. a + b - x) (evenly_spaced a b n) = rev (evenly_spaced a b n)"
proof (rule nth_equalityI)
  show "length (map (\<lambda>x. a + b - x) (evenly_spaced a b n)) = length (rev (evenly_spaced a b n))"
    by simp
next
  fix i assume "i < length (map (\<lambda>x. a + b - x) (evenly_spaced a b n))"
  then have i: "i < n" by (simp add: length_evenly_spaced)
  define d where "d = real (n - 1)"
  have d: "d \<noteq> 0" using assms by (simp add: d_def)
  have nth: "evenly_spaced a b n ! j = a + real j * ((b - a) / d)" if "j < n" for j
    using that unfolding d_def by (rule evenly_spaced_nth)
  have r: "real (n - Suc i) = d - real i"
    using i by (simp add: d_def of_nat_diff)
  have l: "map (\<lambda>x. a + b - x) (evenly_spaced a b n) ! i = a + b - (a + real i * ((b - a) / d))"
    using i by (simp only: nth_map length_evenly_spaced nth)
  have "rev (evenly_spaced a b n) ! i = evenly_spaced a b n ! (n - Suc i)"
    using i by (simp only: rev_nth length_evenly_spaced)
  also have "\<dots> = a + (d - real i) * ((b - a) / d)"
    using i nth [of "n - Suc i"] by (simp add: r)
  also have "\<dots> = a + b - (a + real i * ((b - a) / d))"
    using d by (simp add: field_simps)
  finally show "map (\<lambda>x. a + b - x) (evenly_spaced a b n) ! i = rev (evenly_spaced a b n) ! i"
    using l by simp
qed

lemma area_element_nonneg: "0 \<le> area_element R u v"
  by (simp add: area_element_def d_du_def d_dv_def)

lemma dist3_sym: "dist3 p q = dist3 q p"
  by (cases p; cases q) (simp add: power2_commute)

lemma polyline_length_rev: "polyline_length (rev ps) = polyline_length ps"
proof -
  let ?m = "length ps - 1"
  have "polyline_length (rev ps) = (\<Sum>i\<leftarrow>[0..<?m]. dist3 (rev ps ! i) (rev ps ! Suc i))"
    by (simp add: polyline_length_nth)
  also have "\<dots> = (\<Sum>i = 0..<?m. dist3 (rev ps ! i) (rev ps ! Suc i))"
    by (simp add: sum_list_sum_nth atLeast_upt [symmetric] interv_sum_list_conv_sum_set_nat)
  also have "\<dots> = (\<Sum>i = 0..<?m. dist3 (ps ! (?m - Suc i)) (ps ! Suc (?m - Suc i)))"
  proof (rule sum.cong)
    fix i assume "i \<in> {0..<?m}"
    then have i: "i < ?m" by simp
    then have "rev ps ! i = ps ! Suc (?m - Suc i)" "rev ps ! Suc i = ps ! (?m - Suc i)"
      by (simp_all add: rev_nth Suc_diff_Suc)
    then show "dist3 (rev ps ! i) (rev ps ! Suc i) = dist3 (ps ! (?m - Suc i)) (ps ! Suc (?m - Suc i))"
      by (simp add: dist3_sym)
  qed simp
  also have "\<dots> = (\<Sum>i = 0..<?m. dist3 (ps ! i) (ps ! Suc i))"
    using sum.nat_diff_reindex [of "\<lambda>i. dist3 (ps ! i) (ps ! Suc i)" ?m] by (simp add: lessThan_atLeast0)
  also have "\<dots> = polyline_length ps"
    by (simp add: polyline_length_nth interv_sum_list_conv_sum_set_nat)
  finally show ?thesis .
qed

lemma dist3_turn: "dist3 (turn p) (turn q) = dist3 p q"
  by (cases p; cases q) (simp add: turn_def power2_commute)

lemma polyline_length_turn: "polyline_length (map turn ps) = polyline_length ps"
  by (induction ps rule: polyline_length.induct) (simp_all add: dist3_turn)

lemma point_turn: "point R u (- c) = turn (point R (2 * pi - u) c)"
proof -
  have "cos ((2 * pi - u) / 2) = - cos (u / 2)"
    using cos_minus_pi [of "u / 2"] by (simp add: diff_divide_distrib cos_diff)
  moreover have "sin ((2 * pi - u) / 2) = sin (u / 2)"
    by (simp add: diff_divide_distrib sin_diff)
  moreover have "cos (2 * pi - u) = cos u" "sin (2 * pi - u) = - sin u"
    by (simp_all add: cos_diff sin_diff)
  ultimately show ?thesis
    by (simp add: point_def turn_def)
qed

lemma has_shape_vec: "has_shape [length zs] (vec zs)"
  by (simp add: vec_def list_all_iff)

lemma has_shape_grid: "has_shape [length ys, length xs] (grid xs ys h)"
  by (simp add: grid_def list_all_iff vec_def)

lemma shape_vec: "zs \<noteq> [] \<Longrightarrow> shape (vec zs) = [length zs]"
  by (cases zs) (simp_all add: vec_def)

lemma shape_grid_dims: "xs \<noteq> [] \<Longrightarrow> ys \<noteq> [] \<Longrightarrow> shape (grid xs ys h) = [length ys, length xs]"
  by (cases ys; cases xs) (simp_all add: grid_def vec_def)

lemma point_DERIV_u:
  "DERIV (\<lambda>t. fst (point R t v)) u :> fst (d_du R u v)"
  "DERIV (\<lambda>t. fst (snd (point R t v))) u :> fst (snd (d_du R u v))"
  "DERIV (\<lambda>t. snd (snd (point R t v))) u :> snd (snd (d_du R u v))"
  unfolding point_def d_du_def fst_conv snd_conv
  by (auto intro!: derivative_eq_intros simp: algebra_simps)

lemma point_DERIV_v:
  "DERIV (\<lambda>t. fst (point R u t)) v :> fst (d_dv R u v)"
  "DERIV (\<lambda>t. fst (snd (point R u t))) v :> fst (snd (d_dv R u v))"
  "DERIV (\<lambda>t. snd (snd (point R u t))) v :> snd (snd (d_dv R u v))"
  unfolding point_def d_dv_def fst_conv snd_conv
  by (auto intro!: derivative_eq_intros simp: algebra_simps)

lemma spacing_u:
  assumes "2 \<le> n"
  shows "evenly_spaced 0 (2 * pi) (nat n) ! 1 - evenly_spaced 0 (2 * pi) (nat n) ! 0
         = 2 * pi / real_of_int (n - 1)"
proof -
  have "real (nat n - 1) = real_of_int (n - 1)" using assms by simp
  then show ?thesis
    using assms evenly_spaced_step [of "nat n" 0 "2 * pi"] by simp
qed

lemma spacing_v:
  assumes "2 \<le> n"
  shows "evenly_spaced (- w / 2) (w / 2) (nat n) ! 1 - evenly_spaced (- w / 2) (w / 2) (nat n) ! 0
         = w / real_of_int (n - 1)"
proof -
  have "real (nat n - 1) = real_of_int (n - 1)" using assms by simp
  then show ?thesis
    using assms evenly_spaced_step [of "nat n" "- w / 2" "w / 2"] by simp
qed

lemma methods_expected_strip:
  assumes "2 \<le> n"
  shows "compute_mesh (expected_strip R w n) = Inr (self_mesh (expected_strip R w n))"
    and "compute_surface_area (expected_strip R w n) = Inr (self_surface_area (expected_strip R w n))"
    and "compute_edge_length (expected_strip R w n) = Inr (self_edge_length (expected_strip R w n))"
proof -
  let ?s = "expected_strip R w n"
  let ?us = "evenly_spaced 0 (2 * pi) (nat n)"
  let ?vs = "evenly_spaced (- w / 2) (w / 2) (nat n)"
  have sel: "self_U ?s = grid ?us ?vs (\<lambda>u v. u)" "self_V ?s = grid ?us ?vs (\<lambda>u v. v)"
    "self_u ?s = vec ?us" "self_v ?s = vec ?vs"
    by (simp_all add: expected_strip_def Let_def)
  have len: "2 \<le> length ?us" "2 \<le> length ?vs"
    using assms by (simp_all add: length_evenly_spaced)
  show "compute_mesh ?s = Inr (self_mesh ?s)"
    using compute_mesh_grid [OF sel(1,2)] by (simp add: expected_strip_def Let_def)
  show "compute_surface_area ?s = Inr (self_surface_area ?s)"
    using compute_surface_area_grid [OF sel len] by (simp add: expected_strip_def Let_def)
  show "compute_edge_length ?s = Inr (self_edge_length ?s)"
    using compute_edge_length_vec [OF sel(3)] by (simp add: expected_strip_def Let_def)
qed





lemma surface_area_expected_strip:
  assumes n: "2 \<le> n"
  shows "self_surface_area (expected_strip R w n) =
     Sc ((\<Sum>v\<leftarrow>evenly_spaced (- w / 2) (w / 2) (nat n).
            \<Sum>u\<leftarrow>evenly_spaced 0 (2 * pi) (nat n). area_element R u v)
         * (2 * pi / real_of_int (n - 1)) * (w / real_of_int (n - 1)))"
  using spacing_u [OF n] spacing_v [OF n, of w]
  by (simp add: expected_strip_def Let_def)

lemma area_sum_nonneg:
  "0 \<le> (\<Sum>v\<leftarrow>vs. \<Sum>u\<leftarrow>us. area_element R u v)"
  by (intro sum_list_nonneg) (auto intro!: sum_list_nonneg area_element_nonneg)

lemma boundary_mirror:
  assumes "2 \<le> N"
  shows "map (\<lambda>u. point R u (- c)) (evenly_spaced 0 (2 * pi) N)
       = map turn (rev (map (\<lambda>u. point R u c) (evenly_spaced 0 (2 * pi) N)))"
proof -
  let ?us = "evenly_spaced 0 (2 * pi) N"
  have "map (\<lambda>u. point R u (- c)) ?us = map turn (map (\<lambda>u. point R u c) (map (\<lambda>u. 0 + 2 * pi - u) ?us))"
    by (simp add: point_turn comp_def)
  also have "map (\<lambda>u. 0 + 2 * pi - u) ?us = rev ?us"
    by (rule evenly_spaced_rev [OF assms])
  finally show ?thesis by (simp add: rev_map)
qed

lemma boundary_lengths_equal:
  assumes "2 \<le> N"
  shows "polyline_length (map (\<lambda>u. point R u (- c)) (evenly_spaced 0 (2 * pi) N))
       = polyline_length (map (\<lambda>u. point R u c) (evenly_spaced 0 (2 * pi) N))"
  unfolding boundary_mirror [OF assms] polyline_length_turn polyline_length_rev ..

lemma MobiusStrip_init_Inr:
  assumes "MobiusStrip_init R w n = Inr s"
  shows "2 \<le> n \<and> s = expected_strip R w n"
proof -
  have "2 \<le> n"
  proof (rule ccontr)
    assume "\<not> 2 \<le> n"
    then consider "n < 0" | "0 \<le> n \<and> n < 2" by linarith
    then show False
      using assms by cases (simp_all add: MobiusStrip_init_negative MobiusStrip_init_short)
  qed
  then show ?thesis
    using assms MobiusStrip_init_closed [of n R w] by simp
qed

section \<open>The claims\<close>

subsection \<open>C1: the parametric mapping\<close>

text \<open>
  C1. For every \<open>R\<close> and every scalar or array-valued \<open>u\<close> and \<open>v\<close>,
  \<^verbatim>\<open>parametric_equations\<close> returns the triple of \<open>x = (R + v cos (u/2)) cos u\<close>,
  \<open>y = (R + v cos (u/2)) sin u\<close> and \<open>z = v sin (u/2)\<close>: each component is the formula
  evaluated over \<open>u\<close> and \<open>v\<close> with numpy's broadcasting. For two scalars, a scalar and
  an array, or two arrays of the same shape, it returns (without raising) the formula
  evaluated element-wise. The only exception it can raise is numpy's \<^verbatim>\<open>ValueError\<close> for
  arrays whose shapes cannot be broadcast together.
\<close>

theorem parametric_equations_formula:
  "parametric_equations self u v =
     assign (broadcast (\<lambda>u v. (self_R self + v * cos (u / 2)) * cos u) u v) (\<lambda>x.
     assign (broadcast (\<lambda>u v. (self_R self + v * cos (u / 2)) * sin u) u v) (\<lambda>y.
     assign (broadcast (\<lambda>u v. v * sin (u / 2)) u v) (\<lambda>z.
     Inr (x, y, z))))
   \<and> (rank u = 0 \<or> rank v = 0 \<or> same_shape u v \<longrightarrow>
        parametric_equations self u v =
          Inr (elementwise (\<lambda>u v. (self_R self + v * cos (u / 2)) * cos u) u v,
               elementwise (\<lambda>u v. (self_R self + v * cos (u / 2)) * sin u) u v,
               elementwise (\<lambda>u v. v * sin (u / 2)) u v))
   \<and> (\<forall>e. parametric_equations self u v = Inl e \<longrightarrow> e = ValueError)"
proof (intro conjI impI allI)
  show "parametric_equations self u v =
     assign (broadcast (\<lambda>u v. (self_R self + v * cos (u / 2)) * cos u) u v) (\<lambda>x.
     assign (broadcast (\<lambda>u v. (self_R self + v * cos (u / 2)) * sin u) u v) (\<lambda>y.
     assign (broadcast (\<lambda>u v. v * sin (u / 2)) u v) (\<lambda>z.
     Inr (x, y, z))))"
    by (rule parametric_equations_broadcast)
next
  assume "rank u = 0 \<or> rank v = 0 \<or> same_shape u v"
  then show "parametric_equations self u v =
          Inr (elementwise (\<lambda>u v. (self_R self + v * cos (u / 2)) * cos u) u v,
               elementwise (\<lambda>u v. (self_R self + v * cos (u / 2)) * sin u) u v,
               elementwise (\<lambda>u v. v * sin (u / 2)) u v)"
  proof (elim disjE)
    assume "rank u = 0"
    then obtain c where "u = Sc c" using rank_0 by blast
    then show ?thesis by (simp only: parametric_equations_scalar_u)
  next
    assume "rank v = 0"
    then obtain c where "v = Sc c" using rank_0 by blast
    then show ?thesis by (simp only: parametric_equations_scalar_v)
  next
    assume "same_shape u v"
    then show ?thesis by (rule parametric_equations_same_shape)
  qed
next
  fix e assume "parametric_equations self u v = Inl e"
  then show "e = ValueError" by (rule parametric_equations_Inl)
qed

theorem parametric_equations_formula_witness:
  "same_shape (Arr [Sc 0, Sc pi]) (Arr [Sc 1, Sc 2]) \<and>
   parametric_equations (projr (MobiusStrip_init 5 2 2)) (Arr [Sc 0, Sc pi]) (Arr [Sc 1, Sc 2]) =
     Inr (Arr [Sc 6, Sc (- 5)], Arr [Sc 0, Sc 0], Arr [Sc 0, Sc 2]) \<and>
   parametric_equations (projr (MobiusStrip_init 5 2 2)) (Arr [Sc 0, Sc pi]) (Arr [Sc 1, Sc 2, Sc 3]) =
     Inl ValueError"
proof -
  let ?s = "projr (MobiusStrip_init 5 2 2)"
  have s: "same_shape (Arr [Sc 0, Sc pi]) (Arr [Sc 1, Sc 2])"
    by simp
  have R: "self_R ?s = 5"
    by (simp add: MobiusStrip_init_closed expected_strip_def Let_def)
  have 1: "parametric_equations ?s (Arr [Sc 0, Sc pi]) (Arr [Sc 1, Sc 2]) =
     Inr (Arr [Sc 6, Sc (- 5)], Arr [Sc 0, Sc 0], Arr [Sc 0, Sc 2])"
    using parametric_equations_formula [of ?s "Arr [Sc 0, Sc pi]" "Arr [Sc 1, Sc 2]"] s
    by (simp add: R stmt_simps)
  have 2: "parametric_equations ?s (Arr [Sc 0, Sc pi]) (Arr [Sc 1, Sc 2, Sc 3]) = Inl ValueError"
    using parametric_equations_formula [of ?s "Arr [Sc 0, Sc pi]" "Arr [Sc 1, Sc 2, Sc 3]"]
    by (simp add: stmt_simps)
  show ?thesis using s 1 2 by simp
qed

subsection \<open>C2: the surface area is a Riemann sum\<close>

text \<open>
  C2. For every \<open>R\<close>, \<open>w\<close> and \<open>n \<ge> 2\<close> the constructor returns an instance whose
  surface area, which is what \<^verbatim>\<open>compute_surface_area\<close> returns, is the sum over all grid
  points \<open>(u, v)\<close> of the magnitude of the cross product of \<open>d_du\<close> and \<open>d_dv\<close>,
  multiplied by the grid spacings \<open>\<Delta>u = 2\<pi>/(n-1)\<close> and \<open>\<Delta>v = w/(n-1)\<close>; and \<open>d_du\<close>
  and \<open>d_dv\<close>, whose components are the formulas of the specification, are the partial
  derivatives of the mapping of section 4.1.
\<close>

theorem compute_surface_area_riemann_sum:
  assumes "2 \<le> n"
  shows "(\<exists>s. MobiusStrip_init R w n = Inr s \<and>
      compute_surface_area s = Inr (self_surface_area s) \<and>
      self_surface_area s =
        Sc ((\<Sum>v\<leftarrow>evenly_spaced (- w / 2) (w / 2) (nat n).
              \<Sum>u\<leftarrow>evenly_spaced 0 (2 * pi) (nat n).
                norm3 (cross3 (d_du R u v) (d_dv R u v)))
            * (2 * pi / real_of_int (n - 1)) * (w / real_of_int (n - 1))))
    \<and> DERIV (\<lambda>t. fst (point R t v)) u :> fst (d_du R u v)
    \<and> DERIV (\<lambda>t. fst (snd (point R t v))) u :> fst (snd (d_du R u v))
    \<and> DERIV (\<lambda>t. snd (snd (point R t v))) u :> snd (snd (d_du R u v))
    \<and> DERIV (\<lambda>t. fst (point R u t)) v :> fst (d_dv R u v)
    \<and> DERIV (\<lambda>t. fst (snd (point R u t))) v :> fst (snd (d_dv R u v))
    \<and> DERIV (\<lambda>t. snd (snd (point R u t))) v :> snd (snd (d_dv R u v))
    \<and> fst (d_du R u v) = - v * sin (u / 2) * cos u / 2 - (R + v * cos (u / 2)) * sin u
    \<and> snd (snd (d_du R u v)) = v * cos (u / 2) / 2
    \<and> d_dv R u v = (cos (u / 2) * cos u, cos (u / 2) * sin u, sin (u / 2))"
proof -
  have "self_surface_area (expected_strip R w n) =
        Sc ((\<Sum>v\<leftarrow>evenly_spaced (- w / 2) (w / 2) (nat n).
              \<Sum>u\<leftarrow>evenly_spaced 0 (2 * pi) (nat n).
                norm3 (cross3 (d_du R u v) (d_dv R u v)))
            * (2 * pi / real_of_int (n - 1)) * (w / real_of_int (n - 1)))"
    using spacing_u [OF assms] spacing_v [OF assms, of w]
    by (simp add: expected_strip_def Let_def area_element_def)
  then have area: "\<exists>s. MobiusStrip_init R w n = Inr s \<and>
      compute_surface_area s = Inr (self_surface_area s) \<and>
      self_surface_area s =
        Sc ((\<Sum>v\<leftarrow>evenly_spaced (- w / 2) (w / 2) (nat n).
              \<Sum>u\<leftarrow>evenly_spaced 0 (2 * pi) (nat n).
                norm3 (cross3 (d_du R u v) (d_dv R u v)))
            * (2 * pi / real_of_int (n - 1)) * (w / real_of_int (n - 1)))"
    using MobiusStrip_init_closed [OF assms, of R w] methods_expected_strip(2) [OF assms, of R w]
    by blast
  have formulas: "fst (d_du R u v) = - v * sin (u / 2) * cos u / 2 - (R + v * cos (u / 2)) * sin u"
    "snd (snd (d_du R u v)) = v * cos (u / 2) / 2"
    "d_dv R u v = (cos (u / 2) * cos u, cos (u / 2) * sin u, sin (u / 2))"
    by (simp_all add: d_du_def d_dv_def)
  show ?thesis
    by (intro conjI area point_DERIV_u point_DERIV_v formulas)
qed

theorem compute_surface_area_riemann_sum_witness:
  "(2::int) \<le> 2 \<and>
   (\<exists>s. MobiusStrip_init 5 2 2 = Inr s \<and>
      compute_surface_area s = Inr (self_surface_area s) \<and>
      self_surface_area s =
        Sc ((\<Sum>v\<leftarrow>evenly_spaced (- 2 / 2) (2 / 2) (nat 2).
              \<Sum>u\<leftarrow>evenly_spaced 0 (2 * pi) (nat 2).
                norm3 (cross3 (d_du 5 u v) (d_dv 5 u v)))
            * (2 * pi / real_of_int (2 - 1)) * (2 / real_of_int (2 - 1))))"
proof -
  have h: "(2::int) \<le> 2" by simp
  show ?thesis
    using compute_surface_area_riemann_sum [OF h, of 5 2] h by blast
qed

subsection \<open>C3: the edge length is the sum of two polyline lengths\<close>

text \<open>
  C3. For every \<open>R\<close>, \<open>w\<close> and \<open>n \<ge> 2\<close> the constructor returns an instance whose edge
  length, which is what \<^verbatim>\<open>compute_edge_length\<close> returns, is the sum of two polyline
  lengths: for each of \<open>v = w/2\<close> and \<open>v = -w/2\<close> the loop body adds to the accumulator
  the length of the polyline through the points of the mapping at the \<open>n\<close> values of
  the \<open>u\<close> grid.
\<close>

theorem compute_edge_length_two_polylines:
  assumes "2 \<le> n"
  shows "\<exists>s. MobiusStrip_init R w n = Inr s \<and>
      compute_edge_length s = Inr (self_edge_length s) \<and>
      (\<forall>c v. edge_body s (Sc c) v =
         Inr (Sc (c + polyline_length (map (\<lambda>u. point R u v) (evenly_spaced 0 (2 * pi) (nat n)))))) \<and>
      self_edge_length s =
        Sc (polyline_length (map (\<lambda>u. point R u (w / 2)) (evenly_spaced 0 (2 * pi) (nat n)))
            + polyline_length (map (\<lambda>u. point R u (- w / 2)) (evenly_spaced 0 (2 * pi) (nat n))))"
proof -
  let ?s = "expected_strip R w n"
  have u: "self_u ?s = vec (evenly_spaced 0 (2 * pi) (nat n))" and R: "self_R ?s = R"
    by (simp_all add: expected_strip_def Let_def)
  have "\<forall>c v. edge_body ?s (Sc c) v =
         Inr (Sc (c + polyline_length (map (\<lambda>u. point R u v) (evenly_spaced 0 (2 * pi) (nat n)))))"
    using edge_body_vec [OF u] by (simp add: R)
  moreover have "self_edge_length ?s =
        Sc (polyline_length (map (\<lambda>u. point R u (w / 2)) (evenly_spaced 0 (2 * pi) (nat n)))
            + polyline_length (map (\<lambda>u. point R u (- w / 2)) (evenly_spaced 0 (2 * pi) (nat n))))"
    by (simp add: expected_strip_def Let_def)
  ultimately show ?thesis
    using MobiusStrip_init_closed [OF assms, of R w] methods_expected_strip(3) [OF assms, of R w]
    by blast
qed

theorem compute_edge_length_two_polylines_witness:
  "(2::int) \<le> 2 \<and>
   (\<exists>s. MobiusStrip_init 5 2 2 = Inr s \<and>
      compute_edge_length s = Inr (self_edge_length s) \<and>
      self_edge_length s = Sc (dist3 (6, 0, 0) (4, 0, 0) + dist3 (4, 0, 0) (6, 0, 0)))"
proof -
  have h: "(2::int) \<le> 2" by simp
  have e: "evenly_spaced 0 (2 * pi) 2 = [0, 2 * pi]"
    by (simp add: evenly_spaced_def numeral_2_eq_2)
  show ?thesis
    using compute_edge_length_two_polylines [OF h, of 5 2] h
    by (auto simp: e point_def)
qed

subsection \<open>C4: the parameter grids and the shape of the mesh\<close>

text \<open>
  C4. For every \<open>R\<close>, \<open>w\<close> and \<open>n \<ge> 2\<close> the constructor returns an instance whose \<open>u\<close>
  and \<open>v\<close> are the one-dimensional arrays of the \<open>n\<close> evenly spaced numbers from \<open>0\<close> to
  \<open>2\<pi>\<close> and from \<open>-w/2\<close> to \<open>w/2\<close> (first and last entries at the ends of the interval),
  each of length \<open>n\<close>, and whose mesh, which is what \<^verbatim>\<open>compute_mesh\<close> returns, consists of
  three arrays of shape \<open>n \<times> n\<close>.
\<close>

theorem grids_and_mesh_shape:
  assumes "2 \<le> n"
  shows "\<exists>s. MobiusStrip_init R w n = Inr s \<and>
      self_u s = vec (evenly_spaced 0 (2 * pi) (nat n)) \<and>
      self_v s = vec (evenly_spaced (- w / 2) (w / 2) (nat n)) \<and>
      length (evenly_spaced 0 (2 * pi) (nat n)) = nat n \<and>
      length (evenly_spaced (- w / 2) (w / 2) (nat n)) = nat n \<and>
      evenly_spaced 0 (2 * pi) (nat n) ! 0 = 0 \<and>
      evenly_spaced 0 (2 * pi) (nat n) ! (nat n - 1) = 2 * pi \<and>
      evenly_spaced (- w / 2) (w / 2) (nat n) ! 0 = - w / 2 \<and>
      evenly_spaced (- w / 2) (w / 2) (nat n) ! (nat n - 1) = w / 2 \<and>
      has_shape [nat n] (self_u s) \<and> has_shape [nat n] (self_v s) \<and>
      compute_mesh s = Inr (self_mesh s) \<and>
      has_shape [nat n, nat n] (fst (self_mesh s)) \<and>
      has_shape [nat n, nat n] (fst (snd (self_mesh s))) \<and>
      has_shape [nat n, nat n] (snd (snd (self_mesh s))) \<and>
      shape (fst (self_mesh s)) = [nat n, nat n] \<and>
      shape (fst (snd (self_mesh s))) = [nat n, nat n] \<and>
      shape (snd (snd (self_mesh s))) = [nat n, nat n]"
proof -
  let ?s = "expected_strip R w n"
  let ?us = "evenly_spaced 0 (2 * pi) (nat n)"
  let ?vs = "evenly_spaced (- w / 2) (w / 2) (nat n)"
  have len: "length ?us = nat n" "length ?vs = nat n"
    by (simp_all add: length_evenly_spaced)
  have ne: "?us \<noteq> []" "?vs \<noteq> []"
    using assms len by auto
  have ends: "evenly_spaced a b (nat n) ! 0 = a" "evenly_spaced a b (nat n) ! (nat n - 1) = b"
    for a b :: real
    using assms by (simp_all add: evenly_spaced_nth)
  have uv: "self_u ?s = vec ?us" "self_v ?s = vec ?vs"
    by (simp_all add: expected_strip_def Let_def)
  have hs1: "has_shape [nat n] (self_u ?s)" "has_shape [nat n] (self_v ?s)"
    using has_shape_vec [of ?us] has_shape_vec [of ?vs] by (simp_all only: uv len)
  have hs2: "has_shape [nat n, nat n] (fst (self_mesh ?s))"
    "has_shape [nat n, nat n] (fst (snd (self_mesh ?s)))"
    "has_shape [nat n, nat n] (snd (snd (self_mesh ?s)))"
  proof -
    have g: "has_shape [nat n, nat n] (grid ?us ?vs h)" for h
      using has_shape_grid [of ?vs ?us h] by (simp only: len)
    show "has_shape [nat n, nat n] (fst (self_mesh ?s))"
      "has_shape [nat n, nat n] (fst (snd (self_mesh ?s)))"
      "has_shape [nat n, nat n] (snd (snd (self_mesh ?s)))"
      by (simp_all only: expected_strip_def Let_def MobiusStrip.select_convs fst_conv snd_conv g)
  qed
  have sh: "shape (fst (self_mesh ?s)) = [nat n, nat n]"
    "shape (fst (snd (self_mesh ?s))) = [nat n, nat n]"
    "shape (snd (snd (self_mesh ?s))) = [nat n, nat n]"
  proof -
    have g: "shape (grid ?us ?vs h) = [nat n, nat n]" for h
      using shape_grid_dims [OF ne, of h] by (simp only: len)
    show "shape (fst (self_mesh ?s)) = [nat n, nat n]"
      "shape (fst (snd (self_mesh ?s))) = [nat n, nat n]"
      "shape (snd (snd (self_mesh ?s))) = [nat n, nat n]"
      by (simp_all only: expected_strip_def Let_def MobiusStrip.select_convs fst_conv snd_conv g)
  qed
  show ?thesis
    using MobiusStrip_init_closed [OF assms, of R w] methods_expected_strip(1) [OF assms, of R w]
      uv len ends [of 0 "2 * pi"] ends [of "- w / 2" "w / 2"] hs1 hs2 sh
    by (intro exI [of _ ?s] conjI)
qed

theorem grids_and_mesh_shape_witness:
  "(2::int) \<le> 3 \<and>
   (\<exists>s. MobiusStrip_init 5 2 3 = Inr s \<and>
      self_u s = Arr [Sc 0, Sc pi, Sc (2 * pi)] \<and>
      self_v s = Arr [Sc (- 1), Sc 0, Sc 1] \<and>
      has_shape [3, 3] (fst (self_mesh s)) \<and>
      has_shape [3, 3] (fst (snd (self_mesh s))) \<and>
      has_shape [3, 3] (snd (snd (self_mesh s))))"
proof -
  have h: "(2::int) \<le> 3" by simp
  have n: "nat 3 = 3" by simp
  have e: "evenly_spaced 0 (2 * pi) 3 = [0, pi, 2 * pi]" "evenly_spaced (- 2 / 2) (2 / 2) 3 = [- 1, 0, 1]"
    by (simp_all add: evenly_spaced_def numeral_3_eq_3)
  show ?thesis
    using grids_and_mesh_shape [OF h, of 5 2] h
    unfolding n e by (auto simp: vec_def)
qed

subsection \<open>C5: degenerate inputs\<close>

text \<open>
  C5 says that for every degenerate input (\<open>n < 2\<close>, or \<open>w \<le> 0\<close>, or \<open>R \<le> 0\<close>) the
  construction completes. For \<open>n < 2\<close> it does not: with \<open>n = 1\<close> the grids have one
  entry and \<^verbatim>\<open>self.u[1]\<close> in \<^verbatim>\<open>compute_surface_area\<close> raises \<^verbatim>\<open>IndexError\<close>.
\<close>

theorem degenerate_resolution_counterexample:
  "MobiusStrip_init 5 2 1 = Inl IndexError"
  by (simp add: MobiusStrip_init_short)

text \<open>
  C5, amended. For every \<open>R\<close> and \<open>w\<close>, degenerate or not, and every \<open>n \<ge> 2\<close> the
  construction completes, and \<open>R\<close> and \<open>w\<close> enter the results through the formulas used
  for every other input: the stored surface area is the sum of the area elements
  over the grid times \<open>2\<pi> / (n - 1)\<close> times \<open>w / (n - 1)\<close>. For \<open>n < 2\<close> the construction
  raises: \<^verbatim>\<open>IndexError\<close> (from \<^verbatim>\<open>self.u[1]\<close>) for \<open>n = 0\<close> and \<open>n = 1\<close>, \<^verbatim>\<open>ValueError\<close>
  (from \<^verbatim>\<open>np.linspace\<close>) for \<open>n < 0\<close>.
\<close>

theorem degenerate_inputs:
  "(2 \<le> n \<longrightarrow>
      (\<exists>s. MobiusStrip_init R w n = Inr s \<and>
         self_surface_area s =
           Sc ((\<Sum>v\<leftarrow>evenly_spaced (- w / 2) (w / 2) (nat n).
                  \<Sum>u\<leftarrow>evenly_spaced 0 (2 * pi) (nat n). area_element R u v)
               * (2 * pi / real_of_int (n - 1)) * (w / real_of_int (n - 1)))))
   \<and> (0 \<le> n \<and> n < 2 \<longrightarrow> MobiusStrip_init R w n = Inl IndexError)
   \<and> (n < 0 \<longrightarrow> MobiusStrip_init R w n = Inl ValueError)"
proof (intro conjI impI)
  assume n: "2 \<le> n"
  show "\<exists>s. MobiusStrip_init R w n = Inr s \<and>
         self_surface_area s =
           Sc ((\<Sum>v\<leftarrow>evenly_spaced (- w / 2) (w / 2) (nat n).
                  \<Sum>u\<leftarrow>evenly_spaced 0 (2 * pi) (nat n). area_element R u v)
               * (2 * pi / real_of_int (n - 1)) * (w / real_of_int (n - 1)))"
    using MobiusStrip_init_closed [OF n, of R w] surface_area_expected_strip [OF n, of R w]
    by blast
next
  assume "0 \<le> n \<and> n < 2"
  then show "MobiusStrip_init R w n = Inl IndexError"
    by (simp add: MobiusStrip_init_short)
next
  assume "n < 0"
  then show "MobiusStrip_init R w n = Inl ValueError"
    by (rule MobiusStrip_init_negative)
qed

theorem degenerate_inputs_witness:
  "(\<exists>s. MobiusStrip_init (- 5) (- 2) 2 = Inr s \<and>
      self_surface_area s =
        Sc ((\<Sum>v\<leftarrow>evenly_spaced (- (- 2) / 2) (- 2 / 2) (nat 2).
               \<Sum>u\<leftarrow>evenly_spaced 0 (2 * pi) (nat 2). area_element (- 5) u v)
            * (2 * pi / real_of_int (2 - 1)) * (- 2 / real_of_int (2 - 1))))
   \<and> MobiusStrip_init (- 5) (- 2) 0 = Inl IndexError
   \<and> MobiusStrip_init (- 5) (- 2) (- 1) = Inl ValueError"
  using degenerate_inputs [of 2 "- 5" "- 2"] degenerate_inputs [of 0 "- 5" "- 2"]
    degenerate_inputs [of "- 1" "- 5" "- 2"]
  by simp

subsection \<open>C6: the points at \<open>u = 0\<close> and \<open>u = 2\<pi>\<close>\<close>

text \<open>
  C6 says that for every \<open>v\<close> the points at \<open>u = 0\<close> and at \<open>u = 2\<pi>\<close> with the same \<open>v\<close>
  coincide in \<open>x\<close> and \<open>z\<close>. They do not: on the instance built for \<open>R = 5\<close>, \<open>w = 2\<close>,
  \<open>n = 2\<close> and for \<open>v = 1\<close>, which lies in \<open>[-w/2, w/2]\<close>, the mapping returns
  \<open>(6, 0, 0)\<close> at \<open>u = 0\<close> and \<open>(4, 0, 0)\<close> at \<open>u = 2\<pi>\<close>.
\<close>

theorem seam_counterexample:
  "- self_w (projr (MobiusStrip_init 5 2 2)) / 2 \<le> 1 \<and>
   1 \<le> self_w (projr (MobiusStrip_init 5 2 2)) / 2 \<and>
   parametric_equations (projr (MobiusStrip_init 5 2 2)) (Sc 0) (Sc 1) = Inr (Sc 6, Sc 0, Sc 0) \<and>
   parametric_equations (projr (MobiusStrip_init 5 2 2)) (Sc (2 * pi)) (Sc 1) = Inr (Sc 4, Sc 0, Sc 0)"
  by (simp add: parametric_equations_scalar_u MobiusStrip_init_closed expected_strip_def Let_def)

text \<open>
  C6, amended. For every \<open>R\<close> and \<open>v\<close> the mapping returns \<open>(R + v, 0, 0)\<close> at \<open>u = 0\<close>
  and \<open>(R - v, 0, 0)\<close> at \<open>u = 2\<pi>\<close>: the two points coincide in \<open>y\<close> and \<open>z\<close>, and the
  point at \<open>u = 2\<pi>\<close> with parameter \<open>v\<close> is the point at \<open>u = 0\<close> with parameter \<open>-v\<close>
  (the half-twist), so that the \<open>x\<close> coordinates at the same \<open>v\<close> differ by \<open>2 v\<close>.
\<close>

theorem seam_half_twist:
  "parametric_equations self (Sc 0) (Sc v) = Inr (Sc (self_R self + v), Sc 0, Sc 0) \<and>
   parametric_equations self (Sc (2 * pi)) (Sc v) = Inr (Sc (self_R self - v), Sc 0, Sc 0) \<and>
   parametric_equations self (Sc (2 * pi)) (Sc v) = parametric_equations self (Sc 0) (Sc (- v))"
  by (simp add: parametric_equations_scalar_u)

subsection \<open>C7: the sign flip of the \<open>v\<close> grid\<close>




end
